theory Spec2Isabelle
  imports Complex_Main
begin

section \<open>The platform's Date\<close>

text \<open>
  The calendar component does all its date work through the host's \<^verbatim>\<open>Date\<close> object.
  A \<^verbatim>\<open>Date\<close> is modelled by its time value: an integer number of milliseconds, read in
  local time. This first part is the calendar arithmetic on valid time values; the section
  on \<^verbatim>\<open>Date\<close> objects below adds the Invalid Date and the end of the range of dates. The
  local time zone is taken to keep one constant offset from UTC, so every local day starts
  at midnight and has 24 hours. Calendar fields follow the day-number algorithms of the
  ECMAScript language specification (Day, DayFromYear, YearFromTime, MonthFromTime,
  DateFromTime, WeekDay, MakeDay, MakeDate), over the proleptic Gregorian calendar.
\<close>

type_synonym date = int

definition msPerDay :: int where
  "msPerDay = 24 * 60 * 60 * 1000"

definition Day :: "date \<Rightarrow> int" where
  "Day t = t div msPerDay"

definition TimeWithinDay :: "date \<Rightarrow> int" where
  "TimeWithinDay t = t mod msPerDay"

definition DaysInYear :: "int \<Rightarrow> int" where
  "DaysInYear y =
     (if y mod 4 \<noteq> 0 then 365
      else if y mod 100 \<noteq> 0 then 366
      else if y mod 400 \<noteq> 0 then 365
      else 366)"

definition DayFromYear :: "int \<Rightarrow> int" where
  "DayFromYear y =
     365 * (y - 1970) + (y - 1969) div 4 - (y - 1901) div 100 + (y - 1601) div 400"

text \<open>
  ECMAScript defines the year of a day as the largest \<open>y\<close> with \<open>DayFromYear y \<le> n\<close>. The
  executable form below takes the estimate \<open>n / 365.2425\<close> and corrects it by at most one
  year; lemmas \<open>YearFromDay_lower\<close>, \<open>YearFromDay_upper\<close> and \<open>YearFromDay_unique\<close> show
  that it is that largest year.
\<close>

definition YearFromDay :: "int \<Rightarrow> int" where
  "YearFromDay n =
     (let e = 1970 + (400 * n) div 146097 in
      if DayFromYear (e + 1) \<le> n then e + 1
      else if DayFromYear e \<le> n then e
      else e - 1)"

definition InLeapYear :: "int \<Rightarrow> int" where
  "InLeapYear y = (if DaysInYear y = 366 then 1 else 0)"

text \<open>The day within the year on which month \<open>m\<close> (0 = January) starts; \<open>l\<close> is 1 in a leap year.\<close>

definition MonthStart :: "int \<Rightarrow> int \<Rightarrow> int" where
  "MonthStart l m =
     (if m \<le> 0 then 0
      else if m = 1 then 31
      else if m = 2 then 59 + l
      else if m = 3 then 90 + l
      else if m = 4 then 120 + l
      else if m = 5 then 151 + l
      else if m = 6 then 181 + l
      else if m = 7 then 212 + l
      else if m = 8 then 243 + l
      else if m = 9 then 273 + l
      else if m = 10 then 304 + l
      else if m = 11 then 334 + l
      else 365 + l)"

definition DayWithinYear :: "int \<Rightarrow> int" where
  "DayWithinYear n = n - DayFromYear (YearFromDay n)"

definition MonthFromDay :: "int \<Rightarrow> int" where
  "MonthFromDay n =
     (let w = DayWithinYear n; l = InLeapYear (YearFromDay n) in
      if w < 31 then 0
      else if w < 59 + l then 1
      else if w < 90 + l then 2
      else if w < 120 + l then 3
      else if w < 151 + l then 4
      else if w < 181 + l then 5
      else if w < 212 + l then 6
      else if w < 243 + l then 7
      else if w < 273 + l then 8
      else if w < 304 + l then 9
      else if w < 334 + l then 10
      else 11)"

definition DateFromDay :: "int \<Rightarrow> int" where
  "DateFromDay n =
     DayWithinYear n - MonthStart (InLeapYear (YearFromDay n)) (MonthFromDay n) + 1"

definition WeekDay :: "int \<Rightarrow> int" where
  "WeekDay n = (n + 4) mod 7"

definition MakeDay :: "int \<Rightarrow> int \<Rightarrow> int \<Rightarrow> int" where
  "MakeDay year month dt =
     (let ym = year + month div 12; mn = month mod 12 in
      DayFromYear ym + MonthStart (InLeapYear ym) mn + dt - 1)"

definition MakeDate :: "int \<Rightarrow> int \<Rightarrow> date" where
  "MakeDate day time = day * msPerDay + time"

text \<open>The methods of \<^verbatim>\<open>Date\<close> the component calls, in local time.\<close>

definition getFullYear :: "date \<Rightarrow> int" where
  "getFullYear t = YearFromDay (Day t)"

definition getMonth :: "date \<Rightarrow> int" where
  "getMonth t = MonthFromDay (Day t)"

definition getDate :: "date \<Rightarrow> int" where
  "getDate t = DateFromDay (Day t)"

definition getDay :: "date \<Rightarrow> int" where
  "getDay t = WeekDay (Day t)"

definition getHours :: "date \<Rightarrow> int" where
  "getHours t = (t div (60 * 60 * 1000)) mod 24"

definition getMinutes :: "date \<Rightarrow> int" where
  "getMinutes t = (t div (60 * 1000)) mod 60"

definition getSeconds :: "date \<Rightarrow> int" where
  "getSeconds t = (t div 1000) mod 60"

definition getMilliseconds :: "date \<Rightarrow> int" where
  "getMilliseconds t = t mod 1000"

text \<open>\<^verbatim>\<open>x.setHours(0, 0, 0, 0)\<close>\<close>

definition setHours0 :: "date \<Rightarrow> date" where
  "setHours0 t = MakeDate (Day t) 0"

text \<open>\<^verbatim>\<open>x.setDate(n)\<close>, \<^verbatim>\<open>x.setMonth(m)\<close>, \<^verbatim>\<open>x.setFullYear(y)\<close>: the other fields are kept and
  an out-of-range field rolls over into the next month or year.\<close>

definition setDate :: "date \<Rightarrow> int \<Rightarrow> date" where
  "setDate t n = MakeDate (MakeDay (getFullYear t) (getMonth t) n) (TimeWithinDay t)"

definition setMonth :: "date \<Rightarrow> int \<Rightarrow> date" where
  "setMonth t m = MakeDate (MakeDay (getFullYear t) m (getDate t)) (TimeWithinDay t)"

definition setFullYear :: "date \<Rightarrow> int \<Rightarrow> date" where
  "setFullYear t y = MakeDate (MakeDay y (getMonth t) (getDate t)) (TimeWithinDay t)"

text \<open>\<^verbatim>\<open>new Date(y, m, d)\<close>: local midnight of the given day; a year from 0 to 99 stands for
  1900 + year, as the constructor has it.\<close>

definition MakeFullYear :: "int \<Rightarrow> int" where
  "MakeFullYear y = (if 0 \<le> y \<and> y \<le> 99 then 1900 + y else y)"

definition newDate :: "int \<Rightarrow> int \<Rightarrow> int \<Rightarrow> date" where
  "newDate y m d = MakeDate (MakeDay (MakeFullYear y) m d) 0"

text \<open>\<^verbatim>\<open>Math.round(a / b)\<close> for integers \<open>a\<close> and \<open>b > 0\<close>: the nearest integer, a half
  rounded up.\<close>

definition round_quot :: "int \<Rightarrow> int \<Rightarrow> int" where
  "round_quot a b = (2 * a + b) div (2 * b)"

section \<open>Date arithmetic of the component\<close>

definition startOfDay :: "date \<Rightarrow> date" where
  "startOfDay d = setHours0 d"

definition addDays :: "date \<Rightarrow> int \<Rightarrow> date" where
  "addDays d deltaDays = setDate d (getDate d + deltaDays)"

definition addMonths :: "date \<Rightarrow> int \<Rightarrow> date" where
  "addMonths d deltaMonths = setMonth d (getMonth d + deltaMonths)"

definition addYears :: "date \<Rightarrow> int \<Rightarrow> date" where
  "addYears d deltaYears = setFullYear d (getFullYear d + deltaYears)"

definition clamp :: "int \<Rightarrow> int \<Rightarrow> int \<Rightarrow> int" where
  "clamp v mn mx = min mx (max mn v)"

definition diffDays :: "date \<Rightarrow> date \<Rightarrow> int" where
  "diffDays a b = (let ms = startOfDay a - startOfDay b in round_quot ms (24 * 60 * 60 * 1000))"

section \<open>Date objects that may be invalid\<close>

text \<open>
  A \<^verbatim>\<open>Date\<close> object holds a time value or is an Invalid Date (time value NaN): \<open>None\<close> below.
  A number that may be NaN is modelled the same way. An Invalid Date stays invalid through
  every setter, its getters return NaN, and every comparison with NaN is false.
  \<^verbatim>\<open>setDate\<close> makes the date invalid when it moves it out of the range of dates (\<open>TimeClip\<close>:
  100 000 000 days on either side of the epoch, read here on the local time value);
  \<^verbatim>\<open>setHours(0, 0, 0, 0)\<close> moves a date back by less than a day to a midnight, and the lower
  end of the range is a midnight, so it needs no clipping.
\<close>

type_synonym jsdate = "date option"

type_synonym number = "int option"

definition maxTime :: int where
  "maxTime = 8640000000000000"

definition TimeClip :: "int \<Rightarrow> jsdate" where
  "TimeClip t = (if - maxTime \<le> t \<and> t \<le> maxTime then Some t else None)"

definition getTime :: "jsdate \<Rightarrow> number" where
  "getTime d = d"

definition num_lt :: "number \<Rightarrow> number \<Rightarrow> bool" where
  "num_lt a b = (case (a, b) of (Some x, Some y) \<Rightarrow> x < y | _ \<Rightarrow> False)"

definition num_le :: "number \<Rightarrow> number \<Rightarrow> bool" where
  "num_le a b = (case (a, b) of (Some x, Some y) \<Rightarrow> x \<le> y | _ \<Rightarrow> False)"

definition num_gt :: "number \<Rightarrow> number \<Rightarrow> bool" where
  "num_gt a b = (case (a, b) of (Some x, Some y) \<Rightarrow> x > y | _ \<Rightarrow> False)"

text \<open>\<^verbatim>\<open>a + b\<close> and \<^verbatim>\<open>Math.max(a, b)\<close>: NaN when an argument is.\<close>

definition num_add :: "number \<Rightarrow> number \<Rightarrow> number" where
  "num_add a b = (case (a, b) of (Some x, Some y) \<Rightarrow> Some (x + y) | _ \<Rightarrow> None)"

definition Math_max :: "number \<Rightarrow> number \<Rightarrow> number" where
  "Math_max a b = (case (a, b) of (Some x, Some y) \<Rightarrow> Some (max x y) | _ \<Rightarrow> None)"

text \<open>The getters \<^verbatim>\<open>normalizeEvents\<close> reads, on a \<^verbatim>\<open>Date\<close> object.\<close>

definition getHours_obj :: "jsdate \<Rightarrow> number" where
  "getHours_obj d = map_option getHours d"

definition getMinutes_obj :: "jsdate \<Rightarrow> number" where
  "getMinutes_obj d = map_option getMinutes d"

definition getSeconds_obj :: "jsdate \<Rightarrow> number" where
  "getSeconds_obj d = map_option getSeconds d"

definition getMilliseconds_obj :: "jsdate \<Rightarrow> number" where
  "getMilliseconds_obj d = map_option getMilliseconds d"

text \<open>\<^verbatim>\<open>startOfDay\<close>, \<^verbatim>\<open>addDays\<close> and \<^verbatim>\<open>diffDays\<close> of the component, on \<^verbatim>\<open>Date\<close> objects.\<close>

definition startOfDay_obj :: "jsdate \<Rightarrow> jsdate" where
  "startOfDay_obj d = map_option startOfDay d"

definition addDays_obj :: "jsdate \<Rightarrow> int \<Rightarrow> jsdate" where
  "addDays_obj d deltaDays = (case d of None \<Rightarrow> None | Some t \<Rightarrow> TimeClip (addDays t deltaDays))"

definition diffDays_obj :: "jsdate \<Rightarrow> jsdate \<Rightarrow> number" where
  "diffDays_obj a b = (case (a, b) of (Some x, Some y) \<Rightarrow> Some (diffDays x y) | _ \<Rightarrow> None)"

section \<open>View partitioner\<close>

datatype CalendarView = DayView | WeekView | MonthView | YearView

text \<open>A section of the grid. The \<^verbatim>\<open>key\<close> and \<^verbatim>\<open>title\<close> strings of the source are labels made
  by the platform's formatters; the layout reads \<open>start\<close>, \<open>end\<close> and \<open>days\<close> only.\<close>

record ViewSection =
  s_start :: date
  s_end :: date
  s_days :: "date list"

record ViewModel =
  vm_section :: ViewSection

text \<open>The loop of \<^verbatim>\<open>monthDays\<close>: \<^verbatim>\<open>for (let d = 1; d <= last.getDate(); d += 1) days.push(new Date(y, m, d))\<close>\<close>

function monthDays_loop :: "int \<Rightarrow> int \<Rightarrow> int \<Rightarrow> int \<Rightarrow> date list \<Rightarrow> date list" where
  "monthDays_loop y m lastDate d days =
     (if d \<le> lastDate then monthDays_loop y m lastDate (d + 1) (days @ [newDate y m d])
      else days)"
  by pat_completeness auto
termination
  by (relation "measure (\<lambda>(y, m, lastDate, d, days). nat (lastDate + 1 - d))") auto

declare monthDays_loop.simps [simp del]

definition monthDays :: "date \<Rightarrow> date list" where
  "monthDays anchor =
     (let y = getFullYear anchor;
          m = getMonth anchor;
          last = newDate y (m + 1) 0
      in monthDays_loop y m (getDate last) 1 [])"

definition weekDays :: "date \<Rightarrow> date list" where
  "weekDays anchor =
     (let d = startOfDay anchor;
          day = getDay d;
          mondayOffset = (day + 6) mod 7;
          start = addDays d (- mondayOffset)
      in map (\<lambda>i. addDays start (int i)) [0..<7])"

definition dayOnly :: "date \<Rightarrow> date list" where
  "dayOnly anchor = [startOfDay anchor]"

text \<open>\<^verbatim>\<open>days[0]\<close> and \<^verbatim>\<open>days[days.length - 1]\<close> are \<open>hd\<close> and \<open>last\<close>: the three day lists are
  never empty (lemma \<open>monthDays_nonempty\<close> for the month), so the reads are in range.\<close>

definition getViewModel :: "date \<Rightarrow> CalendarView \<Rightarrow> ViewModel" where
  "getViewModel activeDate view =
     (if view = DayView then
        (let days = dayOnly activeDate;
             start = hd days;
             end = addDays start 1
         in \<lparr>vm_section = \<lparr>s_start = start, s_end = end, s_days = days\<rparr>\<rparr>)
      else if view = WeekView then
        (let days = weekDays activeDate;
             start = hd days;
             end = addDays start 7
         in \<lparr>vm_section = \<lparr>s_start = start, s_end = end, s_days = days\<rparr>\<rparr>)
      else
        (let days = monthDays activeDate;
             start = startOfDay (hd days);
             end = addDays (startOfDay (last days)) 1
         in \<lparr>vm_section = \<lparr>s_start = start, s_end = end, s_days = days\<rparr>\<rparr>))"

definition getYearSections :: "date \<Rightarrow> ViewSection list" where
  "getYearSections activeDate =
     (let y = getFullYear activeDate in
      map (\<lambda>i.
             let anchor = newDate y (int i) 1;
                 days = monthDays anchor;
                 start = startOfDay (hd days);
                 end = addDays (startOfDay (last days)) 1
             in \<lparr>s_start = start, s_end = end, s_days = days\<rparr>)
          [0..<12])"

text \<open>The sections the component renders:
  \<^verbatim>\<open>if (view !== 'year') return [viewModel.section]; return getYearSections(activeDate)\<close>\<close>

definition sections :: "date \<Rightarrow> CalendarView \<Rightarrow> ViewSection list" where
  "sections activeDate view =
     (if view \<noteq> YearView then [vm_section (getViewModel activeDate view)]
      else getYearSections activeDate)"

definition addByView :: "date \<Rightarrow> CalendarView \<Rightarrow> int \<Rightarrow> date" where
  "addByView d view delta =
     (if view = DayView then addDays d delta
      else if view = WeekView then addDays d (delta * 7)
      else if view = MonthView then addMonths d delta
      else addYears d delta)"

text \<open>The updates \<^verbatim>\<open>goPrev\<close> and \<^verbatim>\<open>goNext\<close> apply to the active date.\<close>

definition goPrev :: "CalendarView \<Rightarrow> date \<Rightarrow> date" where
  "goPrev view d = addByView d view (- 1)"

definition goNext :: "CalendarView \<Rightarrow> date \<Rightarrow> date" where
  "goNext view d = addByView d view 1"

section \<open>Event normalizer\<close>

record CalendarResource =
  r_id :: string
  r_title :: string

text \<open>A date given as a \<^verbatim>\<open>Date\<close> object or as text (\<^verbatim>\<open>string | Date\<close>).\<close>

datatype DateInput = DateObj jsdate | DateStr string

record CalendarEvent =
  e_id :: "string option"
  e_title :: string
  e_start :: DateInput
  e_end :: "DateInput option"
  e_resourceId :: "string option"
  e_color :: "string option"

record NormalizedEvent =
  n_id :: "string option"
  n_title :: string
  n_start :: jsdate
  n_end :: jsdate
  n_resourceId :: "string option"
  n_color :: "string option"
  raw :: CalendarEvent

text \<open>\<^verbatim>\<open>toDate\<close>: a \<^verbatim>\<open>Date\<close> is copied, a string is parsed by the platform: \<open>parse\<close>, a
  parameter, which gives an Invalid Date for a string it cannot read.\<close>

definition toDate :: "(string \<Rightarrow> jsdate) \<Rightarrow> DateInput \<Rightarrow> jsdate" where
  "toDate parse v = (case v of DateObj d \<Rightarrow> d | DateStr s \<Rightarrow> parse s)"

text \<open>Truthiness, as \<^verbatim>\<open>e.end ? ... : ...\<close> and \<^verbatim>\<open>!ev.resourceId\<close> test it: an absent value and the
  empty string are falsy, a \<^verbatim>\<open>Date\<close> object is truthy.\<close>

definition truthy_input :: "DateInput option \<Rightarrow> bool" where
  "truthy_input v =
     (case v of None \<Rightarrow> False | Some (DateObj d) \<Rightarrow> True | Some (DateStr s) \<Rightarrow> s \<noteq> [])"

definition truthy_string :: "string option \<Rightarrow> bool" where
  "truthy_string v = (case v of None \<Rightarrow> False | Some s \<Rightarrow> s \<noteq> [])"

text \<open>\<^verbatim>\<open>x !== 0\<close> is true of NaN, so an Invalid Date has a time of day.\<close>

definition hasTime :: "jsdate \<Rightarrow> bool" where
  "hasTime endRaw =
     (getHours_obj endRaw \<noteq> Some 0 \<or> getMinutes_obj endRaw \<noteq> Some 0
      \<or> getSeconds_obj endRaw \<noteq> Some 0 \<or> getMilliseconds_obj endRaw \<noteq> Some 0)"

definition normalizeEvents :: "(string \<Rightarrow> jsdate) \<Rightarrow> CalendarEvent list \<Rightarrow> NormalizedEvent list" where
  "normalizeEvents parse events =
     map (\<lambda>e.
            let start = startOfDay_obj (toDate parse (e_start e));
                endRaw = (case e_end e of
                            Some v \<Rightarrow> if truthy_input (Some v) then toDate parse v
                                      else addDays_obj start 1
                          | None \<Rightarrow> addDays_obj start 1);
                endDay = startOfDay_obj endRaw;
                end = (if hasTime endRaw then addDays_obj endDay 1 else endDay);
                safeEnd = (if num_le (getTime end) (getTime start) then addDays_obj start 1 else end)
            in \<lparr>n_id = e_id e, n_title = e_title e, n_start = start, n_end = safeEnd,
                n_resourceId = e_resourceId e, n_color = e_color e, raw = e\<rparr>)
         events"

section \<open>Visibility projector\<close>

record Positioned =
  ev :: NormalizedEvent
  startIndex :: number
  endIndex :: number
  resourceIndex :: int

text \<open>\<^verbatim>\<open>Array.prototype.findIndex\<close>: the first index whose element passes, or -1.\<close>

fun findIndex_from :: "int \<Rightarrow> ('a \<Rightarrow> bool) \<Rightarrow> 'a list \<Rightarrow> int" where
  "findIndex_from k p [] = - 1"
| "findIndex_from k p (x # xs) = (if p x then k else findIndex_from (k + 1) p xs)"

definition findIndex :: "('a \<Rightarrow> bool) \<Rightarrow> 'a list \<Rightarrow> int" where
  "findIndex p xs = findIndex_from 0 p xs"

text \<open>The list \<^verbatim>\<open>visible\<close> of \<^verbatim>\<open>renderEventsForSection\<close>: filter, map, filter. What follows it
  in the source turns each entry into markup. The section's dates are valid dates; an
  event's may be invalid.\<close>

definition visible :: "ViewSection \<Rightarrow> CalendarResource list \<Rightarrow> NormalizedEvent list \<Rightarrow> Positioned list" where
  "visible sec resources events =
     filter (\<lambda>x. resourceIndex x \<ge> 0)
       (map (\<lambda>e.
               let start = (if num_lt (getTime (n_start e)) (getTime (Some (s_start sec)))
                            then Some (s_start sec) else n_start e);
                   end = (if num_gt (getTime (n_end e)) (getTime (Some (s_end sec)))
                          then Some (s_end sec) else n_end e);
                   startIdx = diffDays_obj start (Some (s_start sec));
                   endIdx = diffDays_obj end (Some (s_start sec));
                   resourceIdx = findIndex (\<lambda>r. Some (r_id r) = n_resourceId e) resources
               in \<lparr>ev = e, startIndex = startIdx,
                   endIndex = Math_max (num_add startIdx (Some 1)) endIdx,
                   resourceIndex = resourceIdx\<rparr>)
          (filter (\<lambda>e.
                     if \<not> truthy_string (n_resourceId e) then False
                     else num_gt (getTime (n_end e)) (getTime (Some (s_start sec))) \<and>
                          num_lt (getTime (n_start e)) (getTime (Some (s_end sec))))
             events))"

section \<open>Drag controller\<close>

record DragState =
  pointerId :: int
  eventId :: string
  origin :: NormalizedEvent
  startX :: real
  startY :: real
  deltaDays :: int
  targetResourceIndex :: int

record PointerEvent =
  pe_pointerId :: int
  clientX :: real
  clientY :: real

definition rowHeight :: real where
  "rowHeight = 40"

text \<open>\<^verbatim>\<open>onEventPointerDown\<close>. The component's state is the optional \<open>drag\<close>; the handler returns
  the state after the call. \<open>bodyTop\<close> is the top of the grid body's bounding rectangle,
  \<open>None\<close> when \<^verbatim>\<open>bodyRef.current\<close> is not set.\<close>

definition onEventPointerDown ::
  "CalendarResource list \<Rightarrow> real option \<Rightarrow> DragState option \<Rightarrow> PointerEvent \<Rightarrow> NormalizedEvent
     \<Rightarrow> DragState option" where
  "onEventPointerDown resources bodyTop drag e nev =
     (if \<not> truthy_string (n_id nev) then drag
      else case bodyTop of
        None \<Rightarrow> drag
      | Some rect_top \<Rightarrow>
          Some \<lparr>pointerId = pe_pointerId e,
                eventId = the (n_id nev),
                origin = nev,
                startX = clientX e,
                startY = clientY e,
                deltaDays = 0,
                targetResourceIndex =
                  clamp \<lfloor>(clientY e - rect_top) / rowHeight\<rfloor> 0 (max 0 (int (length resources) - 1))\<rparr>)"

text \<open>\<^verbatim>\<open>resources[i]\<close>: \<open>None\<close> (undefined) outside the list.\<close>

definition at_index :: "'a list \<Rightarrow> int \<Rightarrow> 'a option" where
  "at_index xs i = (if 0 \<le> i \<and> i < int (length xs) then Some (xs ! nat i) else None)"

text \<open>\<^verbatim>\<open>onEventPointerUp\<close>: the state after the call and the events handed to
  \<^verbatim>\<open>onEventChange\<close>, in order.\<close>

definition onEventPointerUp ::
  "CalendarResource list \<Rightarrow> DragState option \<Rightarrow> PointerEvent
     \<Rightarrow> DragState option \<times> CalendarEvent list" where
  "onEventPointerUp resources drag e =
     (case drag of
        None \<Rightarrow> (drag, [])
      | Some d \<Rightarrow>
          if pe_pointerId e \<noteq> pointerId d then (drag, [])
          else
            (let nextResourceId = map_option r_id (at_index resources (targetResourceIndex d)) in
             if \<not> truthy_string nextResourceId then (None, [])
             else
               (let updated = (raw (origin d))
                      \<lparr>e_id := n_id (origin d),
                       e_start := DateObj (addDays_obj (n_start (origin d)) (deltaDays d)),
                       e_end := Some (DateObj (addDays_obj (n_end (origin d)) (deltaDays d))),
                       e_resourceId := nextResourceId\<rparr>
                in (None, [updated]))))"

section \<open>Auxiliary notions\<close>

text \<open>The length of month \<open>m\<close> (0 = January) of year \<open>y\<close>.\<close>

definition DaysInMonth :: "int \<Rightarrow> int \<Rightarrow> int" where
  "DaysInMonth y m = MonthStart (InLeapYear y) (m + 1) - MonthStart (InLeapYear y) m"

text \<open>A section whose days are consecutive local midnights from its start, and whose end is
  the midnight after its last day.\<close>

definition shaped :: "ViewSection \<Rightarrow> bool" where
  "shaped s \<longleftrightarrow>
     s_days s \<noteq> [] \<and>
     startOfDay (s_start s) = s_start s \<and>
     s_days s = map (\<lambda>i. s_start s + int i * msPerDay) [0..<length (s_days s)] \<and>
     s_end s = s_start s + int (length (s_days s)) * msPerDay"

text \<open>A time value inside the range of dates.\<close>

definition in_range :: "date \<Rightarrow> bool" where
  "in_range t \<longleftrightarrow> - maxTime \<le> t \<and> t \<le> maxTime"

text \<open>Each of \<open>k\<close> successive steps lands on the day of the month it started from: no step
  rolled over the end of a shorter month.\<close>

fun day_kept :: "(date \<Rightarrow> date) \<Rightarrow> nat \<Rightarrow> date \<Rightarrow> bool" where
  "day_kept step 0 d = True"
| "day_kept step (Suc k) d = (getDate (step d) = getDate d \<and> day_kept step k (step d))"

section \<open>Sample data\<close>

text \<open>Three resources, as in the demo application, and a few events on them.\<close>

definition demo_resources :: "CalendarResource list" where
  "demo_resources =
     [\<lparr>r_id = ''r1'', r_title = ''A''\<rparr>, \<lparr>r_id = ''r2'', r_title = ''B''\<rparr>,
      \<lparr>r_id = ''r3'', r_title = ''C''\<rparr>]"

text \<open>An event from 10 June 2024, 09:00 to 14 June 2024, 17:00 (five days) on resource r2.\<close>

definition demo_event :: CalendarEvent where
  "demo_event =
     \<lparr>e_id = Some ''e1'', e_title = ''Task'', e_start = DateObj (Some 1718010000000),
      e_end = Some (DateObj (Some 1718384400000)), e_resourceId = Some ''r2'', e_color = None\<rparr>"

text \<open>A stand-in for the platform's parser, which reads none of the strings given to it: the
  sample events carry \<^verbatim>\<open>Date\<close> objects, but for the one whose end is text that no parser
  reads.\<close>

definition demo_parse :: "string \<Rightarrow> jsdate" where
  "demo_parse s = None"

text \<open>A resource whose id is the empty string, and the five-day event assigned to it.\<close>

definition blank_resources :: "CalendarResource list" where
  "blank_resources = [\<lparr>r_id = '''', r_title = ''A''\<rparr>]"

definition blank_event :: CalendarEvent where
  "blank_event = demo_event\<lparr>e_resourceId := Some ''''\<rparr>"

text \<open>An all-day event on 10 January 2024 on resource r1, and a drag of it by three days
  to the third row.\<close>

definition jan_event :: CalendarEvent where
  "jan_event =
     \<lparr>e_id = Some ''e7'', e_title = ''Review'', e_start = DateObj (Some 1704844800000),
      e_end = None, e_resourceId = Some ''r1'', e_color = Some ''#1677ff''\<rparr>"

definition jan_drag :: DragState where
  "jan_drag =
     \<lparr>pointerId = 1, eventId = ''e7'', origin = hd (normalizeEvents demo_parse [jan_event]),
      startX = 400, startY = 20, deltaDays = 3, targetResourceIndex = 2\<rparr>"

text \<open>The January event with an end that is text no parser reads, and the same event
  starting on the last day of the range of dates.\<close>

definition garbage_event :: CalendarEvent where
  "garbage_event = jan_event\<lparr>e_end := Some (DateStr ''garbage'')\<rparr>"

definition edge_event :: CalendarEvent where
  "edge_event = jan_event\<lparr>e_start := DateObj (Some 8640000000000000)\<rparr>"

text \<open>The same drag, released over the first row.\<close>

definition blank_drag :: DragState where
  "blank_drag = jan_drag\<lparr>targetResourceIndex := 0\<rparr>"

section \<open>Lemmas on the calendar\<close>

lemma succ_div:
  fixes a k :: int
  assumes "0 < k"
  shows "(a + 1) div k = a div k + (if (a + 1) mod k = 0 then 1 else 0)"
proof -
  define q where "q = a div k"
  define r where "r = a mod k"
  have a: "a = k * q + r" by (simp add: q_def r_def)
  have r: "0 \<le> r" "r < k" using assms by (simp_all add: r_def)
  show ?thesis
  proof (cases "r + 1 = k")
    case True
    have e: "a + 1 = k * (q + 1) + 0" using a True by (simp add: algebra_simps)
    have "(a + 1) div k = q + 1" by (rule int_div_pos_eq [OF e]) (use assms in simp_all)
    moreover have "(a + 1) mod k = 0" by (rule int_mod_pos_eq [OF e]) (use assms in simp_all)
    ultimately show ?thesis by (simp add: q_def)
  next
    case False
    have e: "a + 1 = k * q + (r + 1)" using a by simp
    have b: "0 \<le> r + 1" "r + 1 < k" using r False by simp_all
    have "(a + 1) div k = q" by (rule int_div_pos_eq [OF e b])
    moreover have "(a + 1) mod k = r + 1" by (rule int_mod_pos_eq [OF e b])
    ultimately show ?thesis using r by (simp add: q_def)
  qed
qed

lemma mod_shift:
  fixes y :: int
  shows "(y - 1968) mod 4 = y mod 4"
    and "(y - 1900) mod 100 = y mod 100"
    and "(y - 1600) mod 400 = y mod 400"
proof -
  have "(y - 1968) mod 4 = (y + 4 * (- 492)) mod 4" by simp
  then show "(y - 1968) mod 4 = y mod 4" by (simp only: mod_mult_self2)
  have "(y - 1900) mod 100 = (y + 100 * (- 19)) mod 100" by simp
  then show "(y - 1900) mod 100 = y mod 100" by (simp only: mod_mult_self2)
  have "(y - 1600) mod 400 = (y + 400 * (- 4)) mod 400" by simp
  then show "(y - 1600) mod 400 = y mod 400" by (simp only: mod_mult_self2)
qed

lemma mod_100_4: "(y::int) mod 100 = 0 \<Longrightarrow> y mod 4 = 0"
proof -
  assume "y mod 100 = 0"
  then have "100 dvd y" by (simp add: mod_eq_0_iff_dvd)
  moreover have "(4::int) dvd 100" by simp
  ultimately have "4 dvd y" by (rule dvd_trans [rotated])
  then show ?thesis by (simp add: mod_eq_0_iff_dvd)
qed

lemma mod_400_100: "(y::int) mod 400 = 0 \<Longrightarrow> y mod 100 = 0"
proof -
  assume "y mod 400 = 0"
  then have "400 dvd y" by (simp add: mod_eq_0_iff_dvd)
  moreover have "(100::int) dvd 400" by simp
  ultimately have "100 dvd y" by (rule dvd_trans [rotated])
  then show ?thesis by (simp add: mod_eq_0_iff_dvd)
qed

lemma DayFromYear_step: "DayFromYear (y + 1) = DayFromYear y + DaysInYear y"
proof -
  have a: "(y + 1 - 1969) div 4 = (y - 1969) div 4 + (if y mod 4 = 0 then 1 else 0)"
    using succ_div [of 4 "y - 1969"] mod_shift(1) [of y] by (simp add: algebra_simps)
  have b: "(y + 1 - 1901) div 100 = (y - 1901) div 100 + (if y mod 100 = 0 then 1 else 0)"
    using succ_div [of 100 "y - 1901"] mod_shift(2) [of y] by (simp add: algebra_simps)
  have c: "(y + 1 - 1601) div 400 = (y - 1601) div 400 + (if y mod 400 = 0 then 1 else 0)"
    using succ_div [of 400 "y - 1601"] mod_shift(3) [of y] by (simp add: algebra_simps)
  show ?thesis
    unfolding DayFromYear_def DaysInYear_def a b c
    using mod_100_4 [of y] mod_400_100 [of y] by auto
qed

lemma DaysInYear_range: "365 \<le> DaysInYear y" "DaysInYear y \<le> 366"
  by (simp_all add: DaysInYear_def)

lemma DayFromYear_mono: "y \<le> y' \<Longrightarrow> DayFromYear y \<le> DayFromYear y'"
proof (induction y' rule: int_ge_induct)
  case base
  show ?case by simp
next
  case (step i)
  then show ?case
    using DayFromYear_step [of i] DaysInYear_range(1) [of i] by simp
qed

lemma div_bounds:
  fixes a k :: int
  assumes "0 < k"
  shows "k * (a div k) \<le> a" and "a < k * (a div k) + k"
proof -
  have "a = k * (a div k) + a mod k" by simp
  moreover have "0 \<le> a mod k" "a mod k < k" using assms by simp_all
  ultimately show "k * (a div k) \<le> a" and "a < k * (a div k) + k" by linarith+
qed

lemma DayFromYear_bounds:
  shows "400 * DayFromYear y \<le> 146097 * (y - 1970) + 600"
    and "146097 * (y - 1970) - 610 \<le> 400 * DayFromYear y"
proof -
  define a where "a = (y - 1969) div 4"
  define b where "b = (y - 1901) div 100"
  define c where "c = (y - 1601) div 400"
  have A: "4 * a \<le> y - 1969" "y - 1969 < 4 * a + 4"
    unfolding a_def by (rule div_bounds, simp)+
  have B: "100 * b \<le> y - 1901" "y - 1901 < 100 * b + 100"
    unfolding b_def by (rule div_bounds, simp)+
  have C: "400 * c \<le> y - 1601" "y - 1601 < 400 * c + 400"
    unfolding c_def by (rule div_bounds, simp)+
  have D: "DayFromYear y = 365 * (y - 1970) + a - b + c"
    by (simp add: DayFromYear_def a_def b_def c_def)
  show "400 * DayFromYear y \<le> 146097 * (y - 1970) + 600"
    unfolding D using A B C by (simp add: algebra_simps)
  show "146097 * (y - 1970) - 610 \<le> 400 * DayFromYear y"
    unfolding D using A B C by (simp add: algebra_simps)
qed

lemma YearFromDay_lower: "DayFromYear (YearFromDay n) \<le> n"
proof -
  define q where "q = (400 * n) div 146097"
  have Q: "146097 * q \<le> 400 * n" unfolding q_def by (rule div_bounds, simp)
  have "400 * DayFromYear (1970 + q - 1) \<le> 146097 * (q - 1) + 600"
    using DayFromYear_bounds(1) [of "1970 + q - 1"] by simp
  then have "DayFromYear (1970 + q - 1) \<le> n"
    using Q by (simp add: algebra_simps)
  then show ?thesis
    by (simp add: YearFromDay_def Let_def q_def)
qed

lemma YearFromDay_upper: "n < DayFromYear (YearFromDay n + 1)"
proof -
  define q where "q = (400 * n) div 146097"
  have Q: "400 * n < 146097 * q + 146097" unfolding q_def by (rule div_bounds, simp)
  have "146097 * (q + 2) - 610 \<le> 400 * DayFromYear (1970 + q + 2)"
    using DayFromYear_bounds(2) [of "1970 + q + 2"] by simp
  then have "n < DayFromYear (1970 + q + 2)"
    using Q by (simp add: algebra_simps)
  then show ?thesis
    by (simp add: YearFromDay_def Let_def q_def add.assoc)
qed

lemma YearFromDay_unique:
  assumes "DayFromYear y \<le> n" and "n < DayFromYear (y + 1)"
  shows "YearFromDay n = y"
proof (rule ccontr)
  assume ne: "YearFromDay n \<noteq> y"
  show False
  proof (cases "YearFromDay n < y")
    case True
    then have "DayFromYear (YearFromDay n + 1) \<le> DayFromYear y"
      by (intro DayFromYear_mono) simp
    then show False using YearFromDay_upper [of n] assms(1) by simp
  next
    case False
    then have "DayFromYear (y + 1) \<le> DayFromYear (YearFromDay n)"
      using ne by (intro DayFromYear_mono) simp
    then show False using YearFromDay_lower [of n] assms(2) by simp
  qed
qed

lemma msPerDay_pos: "0 < msPerDay"
  by (simp add: msPerDay_def)

lemma Day_MakeDate: "0 \<le> t \<Longrightarrow> t < msPerDay \<Longrightarrow> Day (MakeDate n t) = n"
  unfolding Day_def MakeDate_def
  by (rule int_div_pos_eq [where r = t]) (simp_all add: mult.commute)


lemma TimeWithinDay_range: "0 \<le> TimeWithinDay t" "TimeWithinDay t < msPerDay"
  using msPerDay_pos by (simp_all add: TimeWithinDay_def)

lemma MakeDate_Day: "MakeDate (Day t) (TimeWithinDay t) = t"
  by (simp add: MakeDate_def Day_def TimeWithinDay_def)

lemma InLeapYear_cases: "InLeapYear y = 0 \<and> DaysInYear y = 365 \<or> InLeapYear y = 1 \<and> DaysInYear y = 366"
  by (simp add: InLeapYear_def DaysInYear_def)

lemma DayWithinYear_range:
  "0 \<le> DayWithinYear n" "DayWithinYear n < DaysInYear (YearFromDay n)"
  using YearFromDay_lower [of n] YearFromDay_upper [of n] DayFromYear_step [of "YearFromDay n"]
  by (simp_all add: DayWithinYear_def)

lemma MonthFromDay_range: "0 \<le> MonthFromDay n" "MonthFromDay n \<le> 11"
  by (simp_all add: MonthFromDay_def Let_def)

lemma MonthStart_MonthFromDay:
  "MonthStart (InLeapYear (YearFromDay n)) (MonthFromDay n) \<le> DayWithinYear n"
  "DayWithinYear n < MonthStart (InLeapYear (YearFromDay n)) (MonthFromDay n + 1)"
  using DayWithinYear_range [of n] InLeapYear_cases [of "YearFromDay n"]
  by (auto simp add: MonthFromDay_def MonthStart_def Let_def)

lemma DateFromDay_range: "1 \<le> DateFromDay n" "DateFromDay n \<le> DaysInMonth (YearFromDay n) (MonthFromDay n)"
  using MonthStart_MonthFromDay [of n] by (simp_all add: DateFromDay_def DaysInMonth_def)

lemma month_cases:
  fixes m :: int
  assumes "0 \<le> m" "m \<le> 11"
  shows "m = 0 \<or> m = 1 \<or> m = 2 \<or> m = 3 \<or> m = 4 \<or> m = 5 \<or> m = 6 \<or> m = 7 \<or> m = 8
         \<or> m = 9 \<or> m = 10 \<or> m = 11"
  using assms by arith

lemma DaysInMonth_range: "0 \<le> m \<Longrightarrow> m \<le> 11 \<Longrightarrow> 28 \<le> DaysInMonth y m \<and> DaysInMonth y m \<le> 31"
  using InLeapYear_cases [of y] month_cases [of m]
  by (auto simp add: DaysInMonth_def MonthStart_def)

lemma MakeDay_fields: "MakeDay (YearFromDay n) (MonthFromDay n) (DateFromDay n + k) = n + k"
proof -
  have "MonthFromDay n div 12 = 0" "MonthFromDay n mod 12 = MonthFromDay n"
    using MonthFromDay_range [of n] by simp_all
  then show ?thesis
    by (simp add: MakeDay_def Let_def DateFromDay_def DayWithinYear_def)
qed

lemma addDays_eq: "addDays d k = d + k * msPerDay"
proof -
  have "addDays d k = MakeDate (Day d + k) (TimeWithinDay d)"
    by (simp add: addDays_def setDate_def getFullYear_def getMonth_def getDate_def MakeDay_fields)
  also have "\<dots> = MakeDate (Day d) (TimeWithinDay d) + k * msPerDay"
    by (simp add: MakeDate_def algebra_simps)
  finally show ?thesis by (simp add: MakeDate_Day)
qed

lemma startOfDay_eq: "startOfDay d = Day d * msPerDay"
  by (simp add: startOfDay_def setHours0_def MakeDate_def)

lemma Day_startOfDay: "Day (startOfDay d) = Day d"
  by (simp add: startOfDay_eq Day_def msPerDay_def)

lemma startOfDay_idem: "startOfDay (startOfDay d) = startOfDay d"
  by (simp add: startOfDay_eq [of "startOfDay d"] Day_startOfDay) (simp add: startOfDay_eq)


lemma MakeDay_unfold:
  "0 \<le> m \<Longrightarrow> m \<le> 11 \<Longrightarrow> MakeDay y m dt = DayFromYear y + MonthStart (InLeapYear y) m + dt - 1"
  by (simp add: MakeDay_def Let_def)

lemma MakeDay_normal: "MakeDay y m dt = MakeDay (y + m div 12) (m mod 12) dt"
  by (simp add: MakeDay_def Let_def)

lemma fields_MakeDay:
  assumes "0 \<le> m" "m \<le> 11" "1 \<le> dt" "dt \<le> DaysInMonth y m"
  shows "YearFromDay (MakeDay y m dt) = y"
    and "MonthFromDay (MakeDay y m dt) = m"
    and "DateFromDay (MakeDay y m dt) = dt"
proof -
  define w where "w = MonthStart (InLeapYear y) m + dt - 1"
  have n: "MakeDay y m dt = DayFromYear y + w"
    using assms by (simp add: MakeDay_unfold w_def)
  have w: "0 \<le> w" "w < DaysInYear y"
    "MonthStart (InLeapYear y) m \<le> w" "w < MonthStart (InLeapYear y) (m + 1)"
    using assms(3,4) InLeapYear_cases [of y] month_cases [OF assms(1,2)]
    by (auto simp add: w_def DaysInMonth_def MonthStart_def)
  show Y: "YearFromDay (MakeDay y m dt) = y"
    unfolding n by (rule YearFromDay_unique) (use w DayFromYear_step [of y] in simp_all)
  have W: "DayWithinYear (MakeDay y m dt) = w"
    unfolding DayWithinYear_def Y by (simp add: n)
  show M: "MonthFromDay (MakeDay y m dt) = m"
    unfolding MonthFromDay_def W Y Let_def
    using w(3,4) InLeapYear_cases [of y] month_cases [OF assms(1,2)]
    by (auto simp add: MonthStart_def)
  show "DateFromDay (MakeDay y m dt) = dt"
    unfolding DateFromDay_def W Y M by (simp add: w_def)
qed

lemma MakeDay_next_month:
  assumes "0 \<le> m" "m \<le> 11"
  shows "MakeDay y (m + 1) 0 = MakeDay y m (DaysInMonth y m)"
proof (cases "m = 11")
  case True
  have "MakeDay y 12 0 = DayFromYear (y + 1) - 1"
    by (simp add: MakeDay_def Let_def MonthStart_def)
  also have "\<dots> = DayFromYear y + DaysInYear y - 1"
    by (simp add: DayFromYear_step)
  also have "\<dots> = MakeDay y 11 (DaysInMonth y 11)"
    using InLeapYear_cases [of y]
    by (auto simp add: MakeDay_def Let_def MonthStart_def DaysInMonth_def)
  finally show ?thesis using True by simp
next
  case False
  then have "m + 1 \<le> 11" "0 \<le> m + 1" using assms by simp_all
  then show ?thesis
    using assms by (simp add: MakeDay_unfold DaysInMonth_def)
qed

lemma MakeDay_date_shift: "MakeDay y m (dt + k) = MakeDay y m dt + k"
  by (simp add: MakeDay_def Let_def)

lemma Day_newDate: "Day (newDate y m d) = MakeDay (MakeFullYear y) m d"
  unfolding newDate_def using msPerDay_pos by (simp add: Day_MakeDate)

lemma newDate_shift: "newDate y m d = newDate y m 1 + (d - 1) * msPerDay"
proof -
  have "MakeDay (MakeFullYear y) m d = MakeDay (MakeFullYear y) m 1 + (d - 1)"
    using MakeDay_date_shift [of "MakeFullYear y" m 1 "d - 1"] by simp
  then show ?thesis
    by (simp only: newDate_def MakeDate_def) (simp add: algebra_simps)
qed

lemma newDate_midnight: "startOfDay (newDate y m d) = newDate y m d"
  by (simp add: startOfDay_eq Day_newDate) (simp add: newDate_def MakeDate_def)



lemma getDate_last_of_month:
  assumes "0 \<le> m" "m \<le> 11"
  shows "getDate (newDate y (m + 1) 0) = DaysInMonth (MakeFullYear y) m"
proof -
  have "Day (newDate y (m + 1) 0) = MakeDay (MakeFullYear y) m (DaysInMonth (MakeFullYear y) m)"
    by (simp add: Day_newDate MakeDay_next_month [OF assms])
  then show ?thesis
    using fields_MakeDay(3) [OF assms, of "DaysInMonth (MakeFullYear y) m" "MakeFullYear y"]
      DaysInMonth_range [OF assms, of "MakeFullYear y"]
    by (simp add: getDate_def)
qed

lemma monthDays_loop_eq:
  "monthDays_loop y m lastDate d days = days @ map (newDate y m) [d..lastDate]"
proof (induction y m lastDate d days rule: monthDays_loop.induct)
  case (1 y m lastDate d days)
  show ?case
  proof (cases "d \<le> lastDate")
    case True
    have "[d..lastDate] = d # [d + 1..lastDate]"
      using True by (simp add: upto_rec1)
    then show ?thesis
      using True "1.IH" by (subst monthDays_loop.simps) simp
  next
    case False
    then show ?thesis by (subst monthDays_loop.simps) simp
  qed
qed

lemma getMonth_range: "0 \<le> getMonth d" "getMonth d \<le> 11"
  by (simp_all add: getMonth_def MonthFromDay_range)

lemma monthDays_eq:
  "monthDays a =
     map (newDate (getFullYear a) (getMonth a))
       [1..DaysInMonth (MakeFullYear (getFullYear a)) (getMonth a)]"
  by (simp add: monthDays_def Let_def monthDays_loop_eq getDate_last_of_month getMonth_range)

lemma monthDays_length:
  "int (length (monthDays a)) = DaysInMonth (MakeFullYear (getFullYear a)) (getMonth a)"
  using DaysInMonth_range [OF getMonth_range, of "MakeFullYear (getFullYear a)" a]
  by (simp add: monthDays_eq)

lemma monthDays_nonempty: "monthDays a \<noteq> []"
  using monthDays_length [of a] DaysInMonth_range [OF getMonth_range, of "MakeFullYear (getFullYear a)" a]
  by auto

lemma monthDays_nth:
  assumes "i < length (monthDays a)"
  shows "monthDays a ! i = newDate (getFullYear a) (getMonth a) 1 + int i * msPerDay"
proof -
  have "int i < DaysInMonth (MakeFullYear (getFullYear a)) (getMonth a)"
    using assms monthDays_length [of a] by simp
  then have "[1..DaysInMonth (MakeFullYear (getFullYear a)) (getMonth a)] ! i = 1 + int i"
    by (intro nth_upto) simp
  then have "monthDays a ! i = newDate (getFullYear a) (getMonth a) (1 + int i)"
    using assms by (simp add: monthDays_eq)
  then show ?thesis
    using newDate_shift [of "getFullYear a" "getMonth a" "1 + int i"] by simp
qed

lemma startOfDay_shift: "startOfDay (startOfDay d + k * msPerDay) = startOfDay d + k * msPerDay"
proof -
  have "Day (Day d * msPerDay + k * msPerDay) = Day d + k"
    using msPerDay_pos by (simp add: Day_def)
  then show ?thesis by (simp add: startOfDay_eq algebra_simps)
qed

lemma midnight_shift:
  "startOfDay x = x \<Longrightarrow> startOfDay (x + k * msPerDay) = x + k * msPerDay"
  using startOfDay_shift [of x k] by simp

lemma day_section:
  "vm_section (getViewModel a DayView) =
     \<lparr>s_start = startOfDay a, s_end = startOfDay a + msPerDay, s_days = [startOfDay a]\<rparr>"
  by (simp add: getViewModel_def dayOnly_def Let_def addDays_eq)

lemma weekDays_eq:
  "weekDays a = map (\<lambda>i. addDays (startOfDay a) (- ((getDay a + 6) mod 7)) + int i * msPerDay) [0..<7]"
  by (simp add: weekDays_def Let_def addDays_eq getDay_def Day_startOfDay)

lemma week_section:
  "vm_section (getViewModel a WeekView) =
     \<lparr>s_start = addDays (startOfDay a) (- ((getDay a + 6) mod 7)),
      s_end = addDays (startOfDay a) (- ((getDay a + 6) mod 7)) + 7 * msPerDay,
      s_days = map (\<lambda>i. addDays (startOfDay a) (- ((getDay a + 6) mod 7)) + int i * msPerDay) [0..<7]\<rparr>"
proof -
  define S where "S = addDays (startOfDay a) (- ((getDay a + 6) mod 7))"
  have w: "weekDays a = map (\<lambda>i. S + int i * msPerDay) [0..<7]"
    unfolding S_def by (rule weekDays_eq)
  have "[0..<7] = 0 # [1..<7]" by (simp add: upt_conv_Cons)
  then have h: "hd (weekDays a) = S" unfolding w by simp
  have e: "addDays S 7 = S + 7 * msPerDay" by (rule addDays_eq)
  have "vm_section (getViewModel a WeekView) =
     \<lparr>s_start = S, s_end = S + 7 * msPerDay, s_days = map (\<lambda>i. S + int i * msPerDay) [0..<7]\<rparr>"
    by (simp add: getViewModel_def Let_def h e) (simp add: w)
  then show ?thesis unfolding S_def .
qed

lemma month_section:
  "vm_section (getViewModel a MonthView) =
     \<lparr>s_start = newDate (getFullYear a) (getMonth a) 1,
      s_end = newDate (getFullYear a) (getMonth a) 1 + int (length (monthDays a)) * msPerDay,
      s_days = monthDays a\<rparr>"
proof -
  let ?f = "newDate (getFullYear a) (getMonth a) 1"
  have ne: "monthDays a \<noteq> []" by (rule monthDays_nonempty)
  then have pos: "0 < length (monthDays a)" by simp
  have "hd (monthDays a) = monthDays a ! 0" using ne by (simp add: hd_conv_nth)
  then have h: "hd (monthDays a) = ?f" using monthDays_nth [OF pos] by simp
  have "last (monthDays a) = monthDays a ! (length (monthDays a) - 1)"
    using ne by (simp add: last_conv_nth)
  moreover have "monthDays a ! (length (monthDays a) - 1) = ?f + int (length (monthDays a) - 1) * msPerDay"
    by (rule monthDays_nth) (use pos in simp)
  moreover have "int (length (monthDays a) - 1) = int (length (monthDays a)) - 1"
    using pos by linarith
  ultimately have l: "last (monthDays a) = ?f + (int (length (monthDays a)) - 1) * msPerDay"
    by simp
  have m: "startOfDay ?f = ?f" by (rule newDate_midnight)
  have "startOfDay (last (monthDays a)) = ?f + (int (length (monthDays a)) - 1) * msPerDay"
    unfolding l by (rule midnight_shift [OF m])
  then have e: "addDays (startOfDay (last (monthDays a))) 1 = ?f + int (length (monthDays a)) * msPerDay"
    by (simp add: addDays_eq algebra_simps)
  show ?thesis
    using h e m by (simp add: getViewModel_def Let_def)
qed

lemma year_section_nth:
  assumes "i < 12"
  shows "getYearSections a ! i = vm_section (getViewModel (newDate (getFullYear a) (int i) 1) MonthView)"
  using assms by (simp add: getYearSections_def getViewModel_def Let_def)

lemma length_getYearSections: "length (getYearSections a) = 12"
  by (simp add: getYearSections_def)

lemma shaped_day: "shaped (vm_section (getViewModel a DayView))"
  by (simp add: day_section shaped_def startOfDay_idem)

lemma week_start_midnight:
  "startOfDay (addDays (startOfDay a) k) = addDays (startOfDay a) k"
  by (simp add: addDays_eq startOfDay_shift)

lemma shaped_week: "shaped (vm_section (getViewModel a WeekView))"
  by (simp add: week_section shaped_def week_start_midnight)

lemma shaped_month: "shaped (vm_section (getViewModel a MonthView))"
proof -
  have "monthDays a = map (\<lambda>i. newDate (getFullYear a) (getMonth a) 1 + int i * msPerDay) [0..<length (monthDays a)]"
    by (rule nth_equalityI) (simp_all add: monthDays_nth)
  then show ?thesis
    using monthDays_nonempty [of a]
    by (simp add: month_section shaped_def newDate_midnight)
qed

lemma shaped_sections:
  assumes "s \<in> set (sections a v)"
  shows "shaped s"
proof (cases "v = YearView")
  case True
  then have "s \<in> set (getYearSections a)" using assms by (simp add: sections_def)
  then obtain i where "i < 12" "s = getYearSections a ! i"
    by (metis in_set_conv_nth length_getYearSections)
  then show ?thesis by (simp add: year_section_nth shaped_month)
next
  case False
  then have "s = vm_section (getViewModel a v)" using assms by (simp add: sections_def)
  then show ?thesis
    using False shaped_day shaped_week shaped_month by (cases v) simp_all
qed



section \<open>Claims on the view partitioner\<close>






section \<open>Lemmas on the year view\<close>












section \<open>Lemmas on the projection\<close>

lemma round_quot_multiple:
  assumes "0 < M"
  shows "round_quot (k * M) M = k"
  unfolding round_quot_def
  by (rule int_div_pos_eq [where r = M]) (use assms in \<open>simp_all add: algebra_simps\<close>)

lemma diffDays_eq: "diffDays a b = Day a - Day b"
proof -
  have "startOfDay a - startOfDay b = (Day a - Day b) * msPerDay"
    by (simp add: startOfDay_eq algebra_simps)
  moreover have "(24 * 60 * 60 * 1000 :: int) = msPerDay" by (simp add: msPerDay_def)
  ultimately show ?thesis
    unfolding diffDays_def Let_def using round_quot_multiple [OF msPerDay_pos] by simp
qed

lemma Day_mono: "a \<le> b \<Longrightarrow> Day a \<le> Day b"
  unfolding Day_def using msPerDay_pos by (simp add: zdiv_mono1)

lemma Day_less:
  assumes "x < k * msPerDay"
  shows "Day x < k"
proof (rule ccontr)
  assume "\<not> Day x < k"
  then have "k \<le> Day x" by simp
  then have "k * msPerDay \<le> Day x * msPerDay"
    using msPerDay_pos by simp
  moreover have "Day x * msPerDay \<le> x"
    using div_bounds(1) [OF msPerDay_pos, of x] by (simp add: Day_def mult.commute)
  ultimately show False using assms by simp
qed

lemma Day_midnight: "startOfDay x = x \<Longrightarrow> Day x * msPerDay = x"
  by (simp add: startOfDay_eq)

lemma findIndex_from_range:
  "findIndex_from k p xs = - 1 \<or> (k \<le> findIndex_from k p xs \<and> findIndex_from k p xs < k + int (length xs))"
proof (induction xs arbitrary: k)
  case Nil
  show ?case by simp
next
  case (Cons x xs)
  show ?case using Cons.IH [of "k + 1"] by auto
qed

lemma findIndex_from_found:
  "0 \<le> k \<Longrightarrow> 0 \<le> findIndex_from k p xs \<longleftrightarrow> (\<exists>x \<in> set xs. p x)"
proof (induction xs arbitrary: k)
  case Nil
  show ?case by simp
next
  case (Cons x xs)
  show ?case using Cons.IH [of "k + 1"] Cons.prems by auto
qed

lemma findIndex_range: "0 \<le> findIndex p xs \<Longrightarrow> findIndex p xs < int (length xs)"
  using findIndex_from_range [of 0 p xs] by (auto simp add: findIndex_def)

lemma findIndex_found: "0 \<le> findIndex p xs \<longleftrightarrow> (\<exists>x \<in> set xs. p x)"
  unfolding findIndex_def by (rule findIndex_from_found) simp

lemma num_lt_iff: "num_lt a b \<longleftrightarrow> (\<exists>x y. a = Some x \<and> b = Some y \<and> x < y)"
  by (auto simp add: num_lt_def split: option.splits)

lemma num_gt_iff: "num_gt a b \<longleftrightarrow> (\<exists>x y. a = Some x \<and> b = Some y \<and> y < x)"
  by (auto simp add: num_gt_def split: option.splits)

lemma num_le_iff: "num_le a b \<longleftrightarrow> (\<exists>x y. a = Some x \<and> b = Some y \<and> x \<le> y)"
  by (auto simp add: num_le_def split: option.splits)

lemma visible_elem:
  assumes "p \<in> set (visible sec resources events)"
  obtains s t where "n_start (ev p) = Some s" and "n_end (ev p) = Some t"
    and "s_start sec < t" and "s < s_end sec"
    and "startIndex p = Some (diffDays (max s (s_start sec)) (s_start sec))"
    and "endIndex p =
           Some (max (diffDays (max s (s_start sec)) (s_start sec) + 1)
                     (diffDays (min t (s_end sec)) (s_start sec)))"
proof -
  from assms obtain e where e: "e \<in> set events"
    and gt: "num_gt (getTime (n_end e)) (getTime (Some (s_start sec)))"
    and lt: "num_lt (getTime (n_start e)) (getTime (Some (s_end sec)))"
    and p: "p =
      (let start = (if num_lt (getTime (n_start e)) (getTime (Some (s_start sec)))
                    then Some (s_start sec) else n_start e);
           end = (if num_gt (getTime (n_end e)) (getTime (Some (s_end sec)))
                  then Some (s_end sec) else n_end e);
           startIdx = diffDays_obj start (Some (s_start sec));
           endIdx = diffDays_obj end (Some (s_start sec));
           resourceIdx = findIndex (\<lambda>r. Some (r_id r) = n_resourceId e) resources
       in \<lparr>ev = e, startIndex = startIdx,
           endIndex = Math_max (num_add startIdx (Some 1)) endIdx,
           resourceIndex = resourceIdx\<rparr>)"
    unfolding visible_def by (auto split: if_splits)
  from gt obtain t where t: "n_end e = Some t" "s_start sec < t"
    by (auto simp add: num_gt_iff getTime_def)
  from lt obtain s where s: "n_start e = Some s" "s < s_end sec"
    by (auto simp add: num_lt_iff getTime_def)
  have ev: "ev p = e" unfolding p by (simp add: Let_def)
  have si: "startIndex p = Some (diffDays (max s (s_start sec)) (s_start sec))"
    unfolding p s(1) t(1)
    by (simp add: Let_def getTime_def num_lt_def diffDays_obj_def max_def)
  have ei: "endIndex p =
      Some (max (diffDays (max s (s_start sec)) (s_start sec) + 1)
                (diffDays (min t (s_end sec)) (s_start sec)))"
    unfolding p s(1) t(1)
    by (simp add: Let_def getTime_def num_lt_def num_gt_def diffDays_obj_def Math_max_def
        num_add_def max_def min_def)
  show ?thesis
    using that [of s t] s t ev si ei by simp
qed

lemma visible_resource:
  assumes "p \<in> set (visible sec resources events)"
  shows "ev p \<in> set events"
    and "truthy_string (n_resourceId (ev p))"
    and "resourceIndex p = findIndex (\<lambda>r. Some (r_id r) = n_resourceId (ev p)) resources"
    and "0 \<le> resourceIndex p"
  using assms
  by (auto simp add: visible_def Let_def split: if_splits)

lemma visible_in_grid:
  assumes "shaped sec"
    and "p \<in> set (visible sec resources events)"
  shows "\<exists>a b. startIndex p = Some a \<and> endIndex p = Some b \<and>
           0 \<le> a \<and> a < b \<and> b \<le> int (length (s_days sec)) \<and>
           0 \<le> resourceIndex p \<and> resourceIndex p < int (length resources)"
proof -
  note sh = assms(1)
  define n where "n = int (length (s_days sec))"
  have mid: "Day (s_start sec) * msPerDay = s_start sec"
    using sh by (intro Day_midnight) (simp add: shaped_def)
  have e: "s_end sec = (Day (s_start sec) + n) * msPerDay"
    using sh mid by (simp add: shaped_def n_def algebra_simps)
  from assms(2) obtain s t where st: "s_start sec < t" "s < s_end sec"
    and si: "startIndex p = Some (diffDays (max s (s_start sec)) (s_start sec))"
    and ei: "endIndex p =
           Some (max (diffDays (max s (s_start sec)) (s_start sec) + 1)
                     (diffDays (min t (s_end sec)) (s_start sec)))"
    by (rule visible_elem)
  note v = visible_resource [OF assms(2)]
  define a where "a = max s (s_start sec)"
  define b where "b = min t (s_end sec)"
  have "0 < n" using sh by (simp add: shaped_def n_def)
  then have "0 < n * msPerDay" using msPerDay_pos by simp
  then have lt: "s_start sec < s_end sec"
    using sh by (simp add: shaped_def n_def)
  have a: "s_start sec \<le> a" "a < s_end sec"
    using st(2) lt by (simp_all add: a_def)
  have b: "b \<le> s_end sec" "s_start sec \<le> b"
    using st(1) lt by (simp_all add: b_def)
  have a1: "Day (s_start sec) \<le> Day a" using a(1) by (rule Day_mono)
  have a2: "Day a < Day (s_start sec) + n" using a(2) unfolding e by (rule Day_less)
  have "Day b \<le> Day (s_end sec)" using b(1) by (rule Day_mono)
  moreover have "Day (s_end sec) = Day (s_start sec) + n"
    unfolding e using msPerDay_pos by (simp add: Day_def)
  ultimately have b1: "Day b \<le> Day (s_start sec) + n" by simp
  define x where "x = Day a - Day (s_start sec)"
  define y where "y = max (x + 1) (Day b - Day (s_start sec))"
  have "startIndex p = Some x" "endIndex p = Some y"
    using si ei by (simp_all add: diffDays_eq a_def b_def x_def y_def)
  moreover have "0 \<le> x \<and> x < y \<and> y \<le> n"
    using a1 a2 b1 unfolding x_def y_def by simp
  moreover have "resourceIndex p < int (length resources)"
    using v(3,4) findIndex_range [of "\<lambda>r. Some (r_id r) = n_resourceId (ev p)" resources] by simp
  ultimately show ?thesis using v(4) by (simp add: n_def)
qed

section \<open>Claims on the visibility projector\<close>

text \<open>
  Claim C10. For every section of the partitioner, every resource list and every event
  sequence, each positioned descriptor lies inside the grid: its columns are numbers (not
  NaN) with \<open>0 \<le> startColumn < endColumn \<le> length days\<close>, and \<open>0 \<le> rowIndex < length resources\<close>.
\<close>

theorem projection_in_grid:
  assumes "sec \<in> set (sections activeDate view)"
    and "p \<in> set (visible sec resources events)"
  shows "\<exists>a b. startIndex p = Some a \<and> endIndex p = Some b \<and>
           0 \<le> a \<and> a < b \<and> b \<le> int (length (s_days sec)) \<and>
           0 \<le> resourceIndex p \<and> resourceIndex p < int (length resources)"
  using assms(2) by (rule visible_in_grid [OF shaped_sections [OF assms(1)]])

lemma demo_visible_week:
  "visible (vm_section (getViewModel 1718447400000 WeekView)) demo_resources
     (normalizeEvents demo_parse [demo_event]) =
   [\<lparr>ev = hd (normalizeEvents demo_parse [demo_event]), startIndex = Some 0, endIndex = Some 5,
     resourceIndex = 1\<rparr>]"
  by code_simp

lemma demo_visible_day:
  "visible (vm_section (getViewModel 1718184600000 DayView)) demo_resources
     (normalizeEvents demo_parse [demo_event]) =
   [\<lparr>ev = hd (normalizeEvents demo_parse [demo_event]), startIndex = Some 0, endIndex = Some 1,
     resourceIndex = 1\<rparr>]"
  by code_simp

theorem projection_in_grid_witness:
  "vm_section (getViewModel 1718447400000 WeekView) \<in> set (sections 1718447400000 WeekView) \<and>
   \<lparr>ev = hd (normalizeEvents demo_parse [demo_event]), startIndex = Some 0, endIndex = Some 5,
     resourceIndex = 1\<rparr>
     \<in> set (visible (vm_section (getViewModel 1718447400000 WeekView)) demo_resources
              (normalizeEvents demo_parse [demo_event])) \<and>
   (0::int) < 5 \<and> (5::int) \<le> int (length (s_days (vm_section (getViewModel 1718447400000 WeekView)))) \<and>
   (1::int) < int (length demo_resources)"
proof -
  let ?sec = "vm_section (getViewModel 1718447400000 WeekView)"
  let ?p = "\<lparr>ev = hd (normalizeEvents demo_parse [demo_event]), startIndex = Some 0,
     endIndex = Some 5, resourceIndex = 1\<rparr>"
  have m: "?sec \<in> set (sections 1718447400000 WeekView)"
    by (simp add: sections_def)
  have v: "?p \<in> set (visible ?sec demo_resources (normalizeEvents demo_parse [demo_event]))"
    unfolding demo_visible_week by simp
  show ?thesis
    using projection_in_grid [OF m v] m v by simp
qed

text \<open>
  Claim C4. Every descriptor the projection emits belongs to an event with valid dates and
  has its columns computed from the clipped span: the start column is the day difference
  between the later of the event's start and the section's start, and the section's start;
  the end column is the larger of the start column plus one and the day difference between
  the earlier of the event's end and the section's end, and the section's start; so a
  descriptor is at least one column wide. In a one-day section every descriptor is exactly
  the column from 0 to 1, also for an event of five days.
\<close>

theorem projection_columns:
  "(\<forall>p \<in> set (visible sec resources events).
      \<exists>s t a b. n_start (ev p) = Some s \<and> n_end (ev p) = Some t \<and>
        startIndex p = Some a \<and> endIndex p = Some b \<and>
        a = diffDays (max s (s_start sec)) (s_start sec) \<and>
        b = max (a + 1) (diffDays (min t (s_end sec)) (s_start sec)) \<and>
        a + 1 \<le> b) \<and>
   (\<forall>p \<in> set (visible (vm_section (getViewModel activeDate DayView)) resources events).
      startIndex p = Some 0 \<and> endIndex p = Some 1)"
proof (intro conjI ballI)
  fix p
  assume p: "p \<in> set (visible sec resources events)"
  from p obtain s t where "n_start (ev p) = Some s" "n_end (ev p) = Some t"
    "startIndex p = Some (diffDays (max s (s_start sec)) (s_start sec))"
    "endIndex p =
       Some (max (diffDays (max s (s_start sec)) (s_start sec) + 1)
                 (diffDays (min t (s_end sec)) (s_start sec)))"
    by (rule visible_elem)
  then show "\<exists>s t a b. n_start (ev p) = Some s \<and> n_end (ev p) = Some t \<and>
        startIndex p = Some a \<and> endIndex p = Some b \<and>
        a = diffDays (max s (s_start sec)) (s_start sec) \<and>
        b = max (a + 1) (diffDays (min t (s_end sec)) (s_start sec)) \<and>
        a + 1 \<le> b"
    by simp
next
  fix p
  assume p: "p \<in> set (visible (vm_section (getViewModel activeDate DayView)) resources events)"
  have "length (s_days (vm_section (getViewModel activeDate DayView))) = 1"
    by (simp add: day_section)
  then obtain a b where "startIndex p = Some a" "endIndex p = Some b" "0 \<le> a \<and> a < b \<and> b \<le> 1"
    using visible_in_grid [OF shaped_day p] by auto
  then show "startIndex p = Some 0" and "endIndex p = Some 1" by simp_all
qed

lemma demo_event_five_days:
  "n_end (hd (normalizeEvents demo_parse [demo_event])) =
     addDays_obj (n_start (hd (normalizeEvents demo_parse [demo_event]))) 5"
  by code_simp

lemma demo_event_start: "n_start (hd (normalizeEvents demo_parse [demo_event])) = Some 1717977600000"
  by code_simp

theorem projection_columns_witness:
  "\<lparr>ev = hd (normalizeEvents demo_parse [demo_event]), startIndex = Some 0, endIndex = Some 1,
     resourceIndex = 1\<rparr>
     \<in> set (visible (vm_section (getViewModel 1718184600000 DayView)) demo_resources
              (normalizeEvents demo_parse [demo_event])) \<and>
   n_end (hd (normalizeEvents demo_parse [demo_event])) =
     addDays_obj (n_start (hd (normalizeEvents demo_parse [demo_event]))) 5 \<and>
   length (s_days (vm_section (getViewModel 1718184600000 DayView))) = 1 \<and>
   diffDays (max 1717977600000 (s_start (vm_section (getViewModel 1718184600000 DayView))))
            (s_start (vm_section (getViewModel 1718184600000 DayView))) = 0"
proof -
  let ?sec = "vm_section (getViewModel 1718184600000 DayView)"
  let ?p = "\<lparr>ev = hd (normalizeEvents demo_parse [demo_event]), startIndex = Some 0,
     endIndex = Some 1, resourceIndex = 1\<rparr>"
  have v: "?p \<in> set (visible ?sec demo_resources (normalizeEvents demo_parse [demo_event]))"
    unfolding demo_visible_day by simp
  have "(\<exists>s t a b. n_start (ev ?p) = Some s \<and> n_end (ev ?p) = Some t \<and>
        startIndex ?p = Some a \<and> endIndex ?p = Some b \<and>
        a = diffDays (max s (s_start ?sec)) (s_start ?sec) \<and>
        b = max (a + 1) (diffDays (min t (s_end ?sec)) (s_start ?sec)) \<and>
        a + 1 \<le> b) \<and>
        startIndex ?p = Some 0 \<and> endIndex ?p = Some 1"
    using projection_columns [of ?sec demo_resources "normalizeEvents demo_parse [demo_event]"
        1718184600000] v
    by blast
  then have "diffDays (max 1717977600000 (s_start ?sec)) (s_start ?sec) = 0"
    by (auto simp add: demo_event_start)
  then show ?thesis
    using v demo_event_five_days by (simp add: day_section)
qed

text \<open>
  Claim C3, as amended. The projection emits one descriptor for each event, in order, whose
  resource id is a non-empty string that occurs among the resources' ids and whose span
  meets the section's: \<open>end > section start\<close> and \<open>start < section end\<close>, as comparisons of
  time values (false of an Invalid Date). No other event gets a descriptor: none that ends
  at the section's start, starts at the section's end, has no resource id, has the empty
  string for it, or names no known resource.
\<close>

theorem projection_selects:
  "map ev (visible sec resources events) =
     filter (\<lambda>e. (\<exists>rid. n_resourceId e = Some rid \<and> rid \<noteq> [] \<and> rid \<in> r_id ` set resources) \<and>
                num_gt (getTime (n_end e)) (getTime (Some (s_start sec))) \<and>
                num_lt (getTime (n_start e)) (getTime (Some (s_end sec))))
       events"
proof (induction events)
  case Nil
  show ?case by (simp add: visible_def)
next
  case (Cons e es)
  have f: "0 \<le> findIndex (\<lambda>r. Some (r_id r) = n_resourceId e) resources \<longleftrightarrow>
           (\<exists>rid. n_resourceId e = Some rid \<and> rid \<in> r_id ` set resources)"
    unfolding findIndex_found by (metis image_iff)
  have t: "truthy_string (n_resourceId e) \<longleftrightarrow> (\<exists>rid. n_resourceId e = Some rid \<and> rid \<noteq> [])"
    by (simp add: truthy_string_def split: option.splits)
  show ?case
    using Cons.IH f t by (auto simp add: visible_def Let_def)
qed

lemma blank_normalized:
  "normalizeEvents demo_parse [blank_event] =
     [\<lparr>n_id = Some ''e1'', n_title = ''Task'', n_start = Some 1717977600000,
       n_end = Some 1718409600000, n_resourceId = Some '''', n_color = None, raw = blank_event\<rparr>]"
  by code_simp

lemma blank_visible:
  "visible (vm_section (getViewModel 1718447400000 WeekView)) blank_resources
     (normalizeEvents demo_parse [blank_event]) = []"
  by code_simp

lemma week_demo_section:
  "vm_section (getViewModel 1718447400000 WeekView) =
     \<lparr>s_start = 1717977600000, s_end = 1718582400000,
      s_days = [1717977600000, 1718064000000, 1718150400000, 1718236800000, 1718323200000,
                1718409600000, 1718496000000]\<rparr>"
  by code_simp

text \<open>
  Counterexample to claim C3 as it is written, which counts every event whose resource id
  occurs among the resources. The filter tests \<^verbatim>\<open>!ev.resourceId\<close>, which is also true of
  the empty string: an event on a resource whose id is the empty string is inside the
  section and gets no descriptor.
\<close>

theorem projection_selects_counterexample:
  "map ev (visible (vm_section (getViewModel 1718447400000 WeekView)) blank_resources
            (normalizeEvents demo_parse [blank_event])) \<noteq>
   filter (\<lambda>e. (\<exists>rid. n_resourceId e = Some rid \<and> rid \<in> r_id ` set blank_resources) \<and>
              num_gt (getTime (n_end e))
                (getTime (Some (s_start (vm_section (getViewModel 1718447400000 WeekView))))) \<and>
              num_lt (getTime (n_start e))
                (getTime (Some (s_end (vm_section (getViewModel 1718447400000 WeekView))))))
     (normalizeEvents demo_parse [blank_event])"
  unfolding blank_visible unfolding blank_normalized week_demo_section
  by (simp add: blank_resources_def num_gt_def num_lt_def getTime_def)

section \<open>Claims on the drag controller\<close>

lemma onEventPointerUp_active:
  assumes "pe_pointerId e = pointerId d"
  shows "onEventPointerUp resources (Some d) e =
     (case at_index resources (targetResourceIndex d) of
        None \<Rightarrow> (None, [])
      | Some r \<Rightarrow>
          if r_id r = [] then (None, [])
          else (None,
                [(raw (origin d))
                   \<lparr>e_id := n_id (origin d),
                    e_start := DateObj (addDays_obj (n_start (origin d)) (deltaDays d)),
                    e_end := Some (DateObj (addDays_obj (n_end (origin d)) (deltaDays d))),
                    e_resourceId := Some (r_id r)\<rparr>]))"
  using assms
  by (simp add: onEventPointerUp_def Let_def truthy_string_def split: option.splits)

lemma normalized_id:
  assumes "n \<in> set (normalizeEvents parse events)"
  shows "n_id n = e_id (raw n)"
  using assms by (auto simp add: normalizeEvents_def Let_def)

text \<open>
  Claim C2, as amended. At pointer-up of the active pointer, for a drag whose origin is a
  normalized event: when the target row is outside the resource list, or the resource there
  has the empty string for its id, nothing is handed to the callback and the drag state is
  cleared; otherwise exactly one event is handed over, the origin's raw event with start and
  end replaced by the canonical start and end moved by \<open>deltaDays\<close> days and the resource id
  replaced by that of the resource at the target row, and the drag state is cleared.
\<close>

theorem pointer_up_commits:
  assumes "pe_pointerId e = pointerId d"
    and "origin d \<in> set (normalizeEvents parse events)"
  shows "onEventPointerUp resources (Some d) e =
     (case at_index resources (targetResourceIndex d) of
        None \<Rightarrow> (None, [])
      | Some r \<Rightarrow>
          if r_id r = [] then (None, [])
          else (None,
                [(raw (origin d))
                   \<lparr>e_start := DateObj (addDays_obj (n_start (origin d)) (deltaDays d)),
                    e_end := Some (DateObj (addDays_obj (n_end (origin d)) (deltaDays d))),
                    e_resourceId := Some (r_id r)\<rparr>]))"
proof -
  have "(raw (origin d))\<lparr>e_id := n_id (origin d)\<rparr> = raw (origin d)"
    using normalized_id [OF assms(2)] by simp
  then show ?thesis
    unfolding onEventPointerUp_active [OF assms(1)]
    by (simp split: option.splits)
qed

lemma jan_normalized:
  "normalizeEvents demo_parse [jan_event] =
     [\<lparr>n_id = Some ''e7'', n_title = ''Review'', n_start = Some 1704844800000,
       n_end = Some 1704931200000, n_resourceId = Some ''r1'', n_color = Some ''#1677ff'',
       raw = jan_event\<rparr>]"
  by code_simp

lemma jan_moved:
  "addDays_obj (Some 1704844800000) 3 = Some 1705104000000"
  "addDays_obj (Some 1704931200000) 3 = Some 1705190400000"
  by (simp_all add: addDays_obj_def addDays_eq msPerDay_def TimeClip_def maxTime_def)

theorem pointer_up_commits_witness:
  "pe_pointerId \<lparr>pe_pointerId = 1, clientX = 520, clientY = 100\<rparr> = pointerId jan_drag \<and>
   origin jan_drag \<in> set (normalizeEvents demo_parse [jan_event]) \<and>
   onEventPointerUp demo_resources (Some jan_drag) \<lparr>pe_pointerId = 1, clientX = 520, clientY = 100\<rparr> =
     (None, [jan_event\<lparr>e_start := DateObj (Some 1705104000000),
                       e_end := Some (DateObj (Some 1705190400000)),
                       e_resourceId := Some ''r3''\<rparr>]) \<and>
   onEventPointerUp [] (Some jan_drag) \<lparr>pe_pointerId = 1, clientX = 520, clientY = 100\<rparr> = (None, [])"
proof -
  let ?e = "\<lparr>pe_pointerId = 1, clientX = 520, clientY = 100\<rparr>"
  have p: "pe_pointerId ?e = pointerId jan_drag" by (simp add: jan_drag_def)
  have m: "origin jan_drag \<in> set (normalizeEvents demo_parse [jan_event])"
    by (simp add: jan_drag_def jan_normalized)
  have "onEventPointerUp demo_resources (Some jan_drag) ?e =
     (None, [jan_event\<lparr>e_start := DateObj (Some 1705104000000),
                       e_end := Some (DateObj (Some 1705190400000)),
                       e_resourceId := Some ''r3''\<rparr>])"
    unfolding pointer_up_commits [OF p m]
    by (simp add: jan_drag_def jan_normalized at_index_def demo_resources_def jan_moved)
  moreover have "onEventPointerUp [] (Some jan_drag) ?e = (None, [])"
    unfolding pointer_up_commits [OF p m] by (simp add: at_index_def)
  ultimately show ?thesis using p m by simp
qed

text \<open>
  Counterexample to claim C2 as it is written, which discards the gesture only when the
  target row maps to no resource. The handler tests \<^verbatim>\<open>!nextResourceId\<close>: a row whose
  resource has the empty string for its id discards the gesture as well.
\<close>

theorem pointer_up_counterexample:
  "at_index blank_resources (targetResourceIndex blank_drag) =
     Some \<lparr>r_id = '''', r_title = ''A''\<rparr> \<and>
   onEventPointerUp blank_resources (Some blank_drag)
     \<lparr>pe_pointerId = pointerId blank_drag, clientX = 520, clientY = 20\<rparr> = (None, [])"
  by (simp add: onEventPointerUp_def blank_drag_def jan_drag_def blank_resources_def at_index_def
      truthy_string_def Let_def)

section \<open>Lemmas on navigation\<close>

lemma DaysInMonth_december: "DaysInMonth y 11 = 31"
  by (simp add: DaysInMonth_def MonthStart_def)


lemma getDate_range: "1 \<le> getDate d" "getDate d \<le> 31"
proof -
  show "1 \<le> getDate d" by (simp add: getDate_def DateFromDay_range)
  have "getDate d \<le> DaysInMonth (YearFromDay (Day d)) (MonthFromDay (Day d))"
    by (simp add: getDate_def DateFromDay_range)
  then show "getDate d \<le> 31"
    using DaysInMonth_range [OF MonthFromDay_range, of "YearFromDay (Day d)" "Day d"] by simp
qed

lemma Day_MakeDate_tod: "Day (MakeDate n (TimeWithinDay d)) = n"
  by (rule Day_MakeDate) (rule TimeWithinDay_range)+







lemma MakeDay_date_cases:
  assumes "0 \<le> m" "m \<le> 11" "1 \<le> dt" "dt \<le> 31"
  shows "DateFromDay (MakeDay y m dt) = dt \<or> (29 \<le> dt \<and> DateFromDay (MakeDay y m dt) \<le> 3)"
proof (cases "dt \<le> DaysInMonth y m")
  case True
  then show ?thesis using fields_MakeDay(3) [OF assms(1,2,3)] by simp
next
  case False
  then have gt: "DaysInMonth y m < dt" by simp
  then have "m \<noteq> 11" using assms(4) DaysInMonth_december [of y] by auto
  then have r: "0 \<le> m + 1" "m + 1 \<le> 11" using assms(1,2) by simp_all
  have l: "28 \<le> DaysInMonth y m" using DaysInMonth_range [OF assms(1,2), of y] by simp
  then have b: "1 \<le> dt - DaysInMonth y m" "dt - DaysInMonth y m \<le> DaysInMonth y (m + 1)"
    using gt assms(4) DaysInMonth_range [OF r, of y] by simp_all
  have "MakeDay y m dt = MakeDay y (m + 1) (dt - DaysInMonth y m)"
    using assms(1,2) r by (simp add: MakeDay_unfold DaysInMonth_def)
  then have "DateFromDay (MakeDay y m dt) = dt - DaysInMonth y m"
    using fields_MakeDay(3) [OF r b] by simp
  then show ?thesis using l gt assms(4) by simp
qed

lemma getDate_addMonths:
  "getDate (addMonths d k) = getDate d \<or> (29 \<le> getDate d \<and> getDate (addMonths d k) \<le> 3)"
proof -
  have m: "0 \<le> (getMonth d + k) mod 12" "(getMonth d + k) mod 12 \<le> 11" by simp_all
  have "Day (addMonths d k) =
      MakeDay (getFullYear d + (getMonth d + k) div 12) ((getMonth d + k) mod 12) (getDate d)"
    unfolding addMonths_def setMonth_def
    using MakeDay_normal [of "getFullYear d" "getMonth d + k" "getDate d"]
    by (simp add: Day_MakeDate_tod)
  then show ?thesis
    using MakeDay_date_cases [OF m getDate_range, of "getFullYear d + (getMonth d + k) div 12" d]
    by (simp add: getDate_def [of "addMonths d k"])
qed

lemma getDate_addYears:
  "getDate (addYears d k) = getDate d \<or> (29 \<le> getDate d \<and> getDate (addYears d k) \<le> 3)"
proof -
  have "Day (addYears d k) = MakeDay (getFullYear d + k) (getMonth d) (getDate d)"
    unfolding addYears_def setFullYear_def by (simp add: Day_MakeDate_tod)
  then show ?thesis
    using MakeDay_date_cases [OF getMonth_range getDate_range, of "getFullYear d + k" d d]
    by (simp add: getDate_def [of "addYears d k"])
qed

lemma getDate_addByView:
  assumes "view = MonthView \<or> view = YearView"
  shows "getDate (addByView d view k) = getDate d \<or>
         (29 \<le> getDate d \<and> getDate (addByView d view k) \<le> 3)"
  using assms getDate_addMonths [of d k] getDate_addYears [of d k]
  by (auto simp add: addByView_def)

lemma small_day_stays:
  assumes "\<And>x. getDate (g x) = getDate x \<or> (29 \<le> getDate x \<and> getDate (g x) \<le> 3)"
    and "getDate x \<le> 3"
  shows "getDate ((g ^^ k) x) \<le> 3"
proof (induction k)
  case 0
  show ?case using assms(2) by simp
next
  case (Suc k)
  show ?case using assms(1) [of "(g ^^ k) x"] Suc.IH by auto
qed

lemma rolled_over_day:
  assumes "\<And>x. getDate (f x) = getDate x \<or> (29 \<le> getDate x \<and> getDate (f x) \<le> 3)"
    and "\<not> day_kept f k d"
  shows "29 \<le> getDate d \<and> getDate ((f ^^ k) d) \<le> 3"
  using assms(2)
proof (induction k arbitrary: d)
  case 0
  then show ?case by simp
next
  case (Suc k)
  show ?case
  proof (cases "getDate (f d) = getDate d")
    case True
    then have "\<not> day_kept f k (f d)" using Suc.prems by simp
    then have "29 \<le> getDate (f d) \<and> getDate ((f ^^ k) (f d)) \<le> 3" by (rule Suc.IH)
    then show ?thesis using True by (simp add: funpow_swap1)
  next
    case False
    then have "29 \<le> getDate d" "getDate (f d) \<le> 3" using assms(1) [of d] by auto
    moreover have "getDate ((f ^^ k) (f d)) \<le> 3"
      by (rule small_day_stays [OF assms(1)]) fact
    ultimately show ?thesis by (simp add: funpow_swap1)
  qed
qed

lemma round_trip_fails_after_rollover:
  assumes "view = MonthView \<or> view = YearView"
  shows "\<not> day_kept (goNext view) k d \<Longrightarrow> (goPrev view ^^ k) ((goNext view ^^ k) d) \<noteq> d"
    and "\<not> day_kept (goPrev view) k d \<Longrightarrow> (goNext view ^^ k) ((goPrev view ^^ k) d) \<noteq> d"
proof -
  have n: "getDate (goNext view x) = getDate x \<or> (29 \<le> getDate x \<and> getDate (goNext view x) \<le> 3)" for x
    unfolding goNext_def by (rule getDate_addByView [OF assms])
  have p: "getDate (goPrev view x) = getDate x \<or> (29 \<le> getDate x \<and> getDate (goPrev view x) \<le> 3)" for x
    unfolding goPrev_def by (rule getDate_addByView [OF assms])
  {
    assume "\<not> day_kept (goNext view) k d"
    then have r: "29 \<le> getDate d" "getDate ((goNext view ^^ k) d) \<le> 3"
      using rolled_over_day [of "goNext view" k d] n by blast+
    have "getDate ((goPrev view ^^ k) ((goNext view ^^ k) d)) \<le> 3"
      by (rule small_day_stays [of "goPrev view", OF p r(2)])
    then show "(goPrev view ^^ k) ((goNext view ^^ k) d) \<noteq> d" using r(1) by auto
  }
  {
    assume "\<not> day_kept (goPrev view) k d"
    then have r: "29 \<le> getDate d" "getDate ((goPrev view ^^ k) d) \<le> 3"
      using rolled_over_day [of "goPrev view" k d] p by blast+
    have "getDate ((goNext view ^^ k) ((goPrev view ^^ k) d)) \<le> 3"
      by (rule small_day_stays [of "goNext view", OF n r(2)])
    then show "(goNext view ^^ k) ((goPrev view ^^ k) d) \<noteq> d" using r(1) by auto
  }
qed

section \<open>Claims on navigation\<close>




lemma month_end_exception:
  "goNext MonthView 1675123200000 = 1677801600000"
  "goPrev MonthView (goNext MonthView 1675123200000) = 1675382400000"
  "\<not> day_kept (goNext MonthView) 1 1675123200000"
  by code_simp+

section \<open>Lemmas on the event normalizer\<close>

lemma hasTime_iff: "hasTime (Some t) \<longleftrightarrow> startOfDay t \<noteq> t"
proof -
  have d1: "t div 60000 = t div 1000 div 60"
    using zdiv_zmult2_eq [of 60 t 1000] by simp
  have d2: "t div 3600000 = t div 1000 div 60 div 60"
    using zdiv_zmult2_eq [of 60 t 60000] d1 by simp
  have "\<not> hasTime (Some t) \<longleftrightarrow> t mod msPerDay = 0"
  proof
    assume "\<not> hasTime (Some t)"
    then have h: "t div 1000 div 60 div 60 mod 24 = 0" "t div 1000 div 60 mod 60 = 0"
      "t div 1000 mod 60 = 0" "t mod 1000 = 0"
      by (simp_all add: hasTime_def getHours_obj_def getMinutes_obj_def getSeconds_obj_def
          getMilliseconds_obj_def getHours_def getMinutes_def getSeconds_def
          getMilliseconds_def d1 d2)
    define a where "a = t div 1000"
    define b where "b = a div 60"
    define c where "c = b div 60"
    define e where "e = c div 24"
    have "t = 1000 * a" using h(4) unfolding a_def by (metis mult_div_mod_eq add.right_neutral)
    moreover have "a = 60 * b" using h(3) unfolding a_def b_def by (metis mult_div_mod_eq add.right_neutral)
    moreover have "b = 60 * c" using h(2) unfolding a_def b_def c_def by (metis mult_div_mod_eq add.right_neutral)
    moreover have "c = 24 * e" using h(1) unfolding a_def b_def c_def e_def by (metis mult_div_mod_eq add.right_neutral)
    ultimately have "t = msPerDay * e" by (simp add: msPerDay_def)
    then show "t mod msPerDay = 0" by simp
  next
    assume "t mod msPerDay = 0"
    then obtain e where "t = msPerDay * e" by (auto simp add: mod_eq_0_iff_dvd)
    then have t: "t = 86400000 * e" by (simp add: msPerDay_def)
    have "t div 1000 = 86400 * e" "t div 60000 = 1440 * e" "t div 3600000 = 24 * e" "t mod 1000 = 0"
      unfolding t by simp_all
    then show "\<not> hasTime (Some t)"
      by (simp add: hasTime_def getHours_obj_def getMinutes_obj_def getSeconds_obj_def
          getMilliseconds_obj_def getHours_def getMinutes_def getSeconds_def getMilliseconds_def)
  qed
  moreover have "startOfDay t = t \<longleftrightarrow> t mod msPerDay = 0"
  proof -
    have "t = msPerDay * (t div msPerDay) + t mod msPerDay" by simp
    then have "msPerDay * (t div msPerDay) = t \<longleftrightarrow> t mod msPerDay = 0" by linarith
    then show ?thesis by (simp add: startOfDay_eq Day_def mult.commute)
  qed
  ultimately show ?thesis by auto
qed

lemma hasTime_invalid: "hasTime None"
  by (simp add: hasTime_def getHours_obj_def)

lemma addDays_obj_in_range:
  "in_range (addDays t k) \<Longrightarrow> addDays_obj (Some t) k = Some (addDays t k)"
  by (simp add: addDays_obj_def TimeClip_def in_range_def)

lemma addDays_obj_out_of_range:
  "\<not> in_range (addDays t k) \<Longrightarrow> addDays_obj (Some t) k = None"
  by (simp add: addDays_obj_def TimeClip_def in_range_def)

lemma toDate_DateObj: "toDate parse (DateObj d) = d"
  by (simp add: toDate_def)

section \<open>Claims on the event normalizer\<close>

text \<open>
  Claim C1, as amended. Normalization keeps the length and order of the events. In a time
  zone of constant offset (the model's, see the first section), for an event
  whose start is a valid date with the following day inside the range of dates, and whose
  end, when it is given, is a valid date with the following midnight inside the range when
  it is not a midnight itself: the canonical start is the start floored to local midnight.
  When the end is absent (or the empty string), the canonical end is the start plus one
  day. When the end is given, a non-midnight end is floored to midnight and moved to the
  following midnight, a midnight end is kept; if the end obtained this way is not after the
  start, the canonical end is the start plus one day. The canonical start and end are then
  valid dates at local midnight with \<open>start < end\<close>.
\<close>

theorem normalize_canonical:
  assumes "i < length events"
    and "toDate parse (e_start (events ! i)) = Some s"
    and "in_range (addDays (startOfDay s) 1)"
    and "\<forall>v. e_end (events ! i) = Some v \<and> truthy_input (e_end (events ! i)) \<longrightarrow>
           (\<exists>t. toDate parse v = Some t \<and>
                (startOfDay t \<noteq> t \<longrightarrow> in_range (addDays (startOfDay t) 1)))"
  shows "length (normalizeEvents parse events) = length events \<and>
    (let e = events ! i;
         n = normalizeEvents parse events ! i;
         start = startOfDay s
     in raw n = e \<and>
        n_start n = Some start \<and>
        (\<not> truthy_input (e_end e) \<longrightarrow> n_end n = Some (addDays start 1)) \<and>
        (\<forall>v t. e_end e = Some v \<and> truthy_input (e_end e) \<and> toDate parse v = Some t \<longrightarrow>
           (let end = (if startOfDay t \<noteq> t then addDays (startOfDay t) 1 else t)
            in n_end n = Some (if end \<le> start then addDays start 1 else end))) \<and>
        num_lt (getTime (n_start n)) (getTime (n_end n)) \<and>
        (\<exists>a b. n_start n = Some a \<and> n_end n = Some b \<and> a < b \<and>
               startOfDay a = a \<and> startOfDay b = b))"
proof -
  define e where "e = events ! i"
  define start_o where "start_o = startOfDay_obj (toDate parse (e_start e))"
  define next_o where "next_o = addDays_obj start_o 1"
  define endRaw where "endRaw =
    (case e_end e of
       Some v \<Rightarrow> if truthy_input (Some v) then toDate parse v else next_o
     | None \<Rightarrow> next_o)"
  define end0 where
    "end0 = (if hasTime endRaw then addDays_obj (startOfDay_obj endRaw) 1 else startOfDay_obj endRaw)"
  define safeEnd where
    "safeEnd = (if num_le (getTime end0) (getTime start_o) then next_o else end0)"
  define n where "n = normalizeEvents parse events ! i"
  have n: "n = \<lparr>n_id = e_id e, n_title = e_title e, n_start = start_o, n_end = safeEnd,
                n_resourceId = e_resourceId e, n_color = e_color e, raw = e\<rparr>"
    unfolding n_def safeEnd_def end0_def endRaw_def next_o_def start_o_def e_def normalizeEvents_def
    using assms(1) by (simp add: Let_def)
  define start where "start = startOfDay s"
  define next_day where "next_day = addDays start 1"
  have so: "start_o = Some start"
    using assms(2) by (simp add: start_o_def start_def e_def startOfDay_obj_def)
  have no: "next_o = Some next_day"
    unfolding next_o_def so next_day_def
    using assms(3) by (intro addDays_obj_in_range) (simp add: start_def)
  have sm: "startOfDay start = start" by (simp add: start_def startOfDay_idem)
  have nd: "next_day = start + msPerDay" by (simp add: next_day_def addDays_eq)
  have nm: "startOfDay next_day = next_day"
    unfolding nd using midnight_shift [OF sm, of 1] by simp
  have lt: "start < next_day" using msPerDay_pos by (simp add: nd)
  have absent: "safeEnd = Some next_day" if "\<not> truthy_input (e_end e)"
  proof -
    have "endRaw = Some next_day"
      using that by (cases "e_end e") (simp_all add: endRaw_def no)
    then have "end0 = Some next_day"
      by (simp add: end0_def hasTime_iff nm startOfDay_obj_def)
    then show ?thesis
      using lt by (simp add: safeEnd_def so no num_le_def getTime_def)
  qed
  have present: "safeEnd =
      Some (let end = (if startOfDay t \<noteq> t then addDays (startOfDay t) 1 else t)
            in if end \<le> start then next_day else end)"
    if h: "e_end e = Some v \<and> truthy_input (e_end e) \<and> toDate parse v = Some t" for v t
  proof -
    have v: "e_end e = Some v" and tr: "truthy_input (Some v)" and t: "toDate parse v = Some t"
      using h by auto
    have "endRaw = Some t" using v tr t by (simp add: endRaw_def)
    moreover have "addDays_obj (Some (startOfDay t)) 1 = Some (addDays (startOfDay t) 1)"
      if "startOfDay t \<noteq> t"
      using assms(4) v tr t that
      by (intro addDays_obj_in_range) (auto simp add: e_def)
    ultimately have "end0 = Some (if startOfDay t \<noteq> t then addDays (startOfDay t) 1 else t)"
      by (simp add: end0_def hasTime_iff startOfDay_obj_def)
    then show ?thesis
      by (simp add: safeEnd_def so no num_le_def getTime_def Let_def)
  qed
  have valid_end: "\<exists>b. safeEnd = Some b \<and> start < b \<and> startOfDay b = b"
  proof (cases "truthy_input (e_end e)")
    case False
    then show ?thesis using absent lt nm by simp
  next
    case True
    then obtain v where v: "e_end e = Some v"
      by (cases "e_end e") (simp_all add: truthy_input_def)
    then obtain t where t: "toDate parse v = Some t"
      using assms(4) True by (auto simp add: e_def)
    define end1 where "end1 = (if startOfDay t \<noteq> t then addDays (startOfDay t) 1 else t)"
    have "startOfDay (startOfDay t + 1 * msPerDay) = startOfDay t + 1 * msPerDay"
      by (rule startOfDay_shift)
    then have m1: "startOfDay end1 = end1"
      by (simp add: end1_def addDays_eq)
    have "safeEnd = Some (if end1 \<le> start then next_day else end1)"
      using present [of v t] v True t by (simp add: Let_def end1_def)
    then show ?thesis using lt nm m1 by auto
  qed
  then obtain b where b: "safeEnd = Some b" "start < b" "startOfDay b = b" by blast
  have P: "\<forall>v t. e_end e = Some v \<and> truthy_input (e_end e) \<and> toDate parse v = Some t \<longrightarrow>
           (let end = (if startOfDay t \<noteq> t then addDays (startOfDay t) 1 else t)
            in n_end n = Some (if end \<le> start then next_day else end))"
  proof (intro allI impI)
    fix v t
    assume h: "e_end e = Some v \<and> truthy_input (e_end e) \<and> toDate parse v = Some t"
    show "let end = (if startOfDay t \<noteq> t then addDays (startOfDay t) 1 else t)
          in n_end n = Some (if end \<le> start then next_day else end)"
      using present [OF h] by (simp add: n Let_def)
  qed
  have A: "\<not> truthy_input (e_end e) \<longrightarrow> n_end n = Some next_day"
    using absent by (simp add: n)
  have B: "raw n = e" "n_start n = Some start"
    by (simp_all add: n so)
  have C: "num_lt (getTime (n_start n)) (getTime (n_end n))"
    using b by (simp add: n so num_lt_def getTime_def)
  have D: "\<exists>a b. n_start n = Some a \<and> n_end n = Some b \<and> a < b \<and>
               startOfDay a = a \<and> startOfDay b = b"
    using b sm by (simp add: n so)
  have Q: "raw n = e \<and> n_start n = Some start \<and>
        (\<not> truthy_input (e_end e) \<longrightarrow> n_end n = Some next_day) \<and>
        (\<forall>v t. e_end e = Some v \<and> truthy_input (e_end e) \<and> toDate parse v = Some t \<longrightarrow>
           (let end = (if startOfDay t \<noteq> t then addDays (startOfDay t) 1 else t)
            in n_end n = Some (if end \<le> start then next_day else end))) \<and>
        num_lt (getTime (n_start n)) (getTime (n_end n)) \<and>
        (\<exists>a b. n_start n = Some a \<and> n_end n = Some b \<and> a < b \<and>
               startOfDay a = a \<and> startOfDay b = b)"
    using A P B C D by (intro conjI)
  have L: "length (normalizeEvents parse events) = length events"
    by (simp add: normalizeEvents_def)
  show ?thesis
    using L Q unfolding n_def next_day_def start_def e_def Let_def by (rule conjI)
qed

lemma demo_end_fields:
  "startOfDay 1718384400000 = 1718323200000"
  "addDays 1718323200000 1 = 1718409600000"
  "startOfDay 1717977600000 = 1717977600000"
  "startOfDay 1718010000000 = 1717977600000"
  "startOfDay 1704844800000 = 1704844800000"
  "addDays 1704844800000 1 = 1704931200000"
  "addDays 1717977600000 1 = 1718064000000"
  by code_simp+

theorem normalize_canonical_witness:
  "(0::nat) < length [jan_event, demo_event] \<and> (1::nat) < length [jan_event, demo_event] \<and>
   toDate demo_parse (e_start jan_event) = Some 1704844800000 \<and>
   in_range (addDays (startOfDay 1704844800000) 1) \<and>
   \<not> truthy_input (e_end jan_event) \<and>
   n_start (normalizeEvents demo_parse [jan_event, demo_event] ! 0) = Some 1704844800000 \<and>
   n_end (normalizeEvents demo_parse [jan_event, demo_event] ! 0) = Some 1704931200000 \<and>
   toDate demo_parse (e_start demo_event) = Some 1718010000000 \<and>
   in_range (addDays (startOfDay 1718010000000) 1) \<and>
   e_end demo_event = Some (DateObj (Some 1718384400000)) \<and> truthy_input (e_end demo_event) \<and>
   startOfDay 1718384400000 \<noteq> 1718384400000 \<and>
   in_range (addDays (startOfDay 1718384400000) 1) \<and>
   n_start (normalizeEvents demo_parse [jan_event, demo_event] ! 1) = Some 1717977600000 \<and>
   n_end (normalizeEvents demo_parse [jan_event, demo_event] ! 1) = Some 1718409600000 \<and>
   num_lt (getTime (n_start (normalizeEvents demo_parse [jan_event, demo_event] ! 1)))
          (getTime (n_end (normalizeEvents demo_parse [jan_event, demo_event] ! 1)))"
proof -
  have l0: "(0::nat) < length [jan_event, demo_event]" and l1: "(1::nat) < length [jan_event, demo_event]"
    by simp_all
  have e0: "[jan_event, demo_event] ! 0 = jan_event" and e1: "[jan_event, demo_event] ! 1 = demo_event"
    by simp_all
  have s0: "toDate demo_parse (e_start ([jan_event, demo_event] ! 0)) = Some 1704844800000"
    by (simp add: jan_event_def toDate_DateObj)
  have s1: "toDate demo_parse (e_start ([jan_event, demo_event] ! 1)) = Some 1718010000000"
    by (simp add: demo_event_def toDate_DateObj)
  have r0: "in_range (addDays (startOfDay 1704844800000) 1)"
    and r1: "in_range (addDays (startOfDay 1718010000000) 1)"
    and r2: "in_range (addDays (startOfDay 1718384400000) 1)"
    by (simp_all add: demo_end_fields in_range_def maxTime_def addDays_eq msPerDay_def)
  have t0: "\<not> truthy_input (e_end jan_event)"
    by (simp add: jan_event_def truthy_input_def)
  have t1: "e_end demo_event = Some (DateObj (Some 1718384400000))" "truthy_input (e_end demo_event)"
    by (simp_all add: demo_event_def truthy_input_def)
  have h0: "\<forall>v. e_end ([jan_event, demo_event] ! 0) = Some v \<and>
               truthy_input (e_end ([jan_event, demo_event] ! 0)) \<longrightarrow>
           (\<exists>t. toDate demo_parse v = Some t \<and>
                (startOfDay t \<noteq> t \<longrightarrow> in_range (addDays (startOfDay t) 1)))"
    using t0 by simp
  have h1: "\<forall>v. e_end ([jan_event, demo_event] ! 1) = Some v \<and>
               truthy_input (e_end ([jan_event, demo_event] ! 1)) \<longrightarrow>
           (\<exists>t. toDate demo_parse v = Some t \<and>
                (startOfDay t \<noteq> t \<longrightarrow> in_range (addDays (startOfDay t) 1)))"
    using t1 r2 by (simp add: toDate_DateObj)
  note T0 = normalize_canonical [OF l0 s0 r0 h0, unfolded Let_def e0]
  note T1 = normalize_canonical [OF l1 s1 r1 h1, unfolded Let_def e1]
  have n0: "n_start (normalizeEvents demo_parse [jan_event, demo_event] ! 0) = Some 1704844800000"
    "n_end (normalizeEvents demo_parse [jan_event, demo_event] ! 0) = Some 1704931200000"
    using T0 t0 by (simp_all add: demo_end_fields)
  have n1: "n_start (normalizeEvents demo_parse [jan_event, demo_event] ! 1) = Some 1717977600000"
    using T1 by (simp add: demo_end_fields)
  have n3: "num_lt (getTime (n_start (normalizeEvents demo_parse [jan_event, demo_event] ! 1)))
            (getTime (n_end (normalizeEvents demo_parse [jan_event, demo_event] ! 1)))"
    using T1 by blast
  have "e_end demo_event = Some (DateObj (Some 1718384400000)) \<and> truthy_input (e_end demo_event) \<and>
        toDate demo_parse (DateObj (Some 1718384400000)) = Some 1718384400000 \<longrightarrow>
      n_end (normalizeEvents demo_parse [jan_event, demo_event] ! 1) =
        Some (if (if startOfDay 1718384400000 \<noteq> 1718384400000
                  then addDays (startOfDay 1718384400000) 1 else 1718384400000)
                 \<le> startOfDay 1718010000000
              then addDays (startOfDay 1718010000000) 1
              else if startOfDay 1718384400000 \<noteq> 1718384400000
                   then addDays (startOfDay 1718384400000) 1 else 1718384400000)"
    using T1 by blast
  then have n2: "n_end (normalizeEvents demo_parse [jan_event, demo_event] ! 1) = Some 1718409600000"
    using t1 by (simp add: toDate_DateObj demo_end_fields)
  show ?thesis
    using l0 l1 s0 [unfolded e0] s1 [unfolded e1] r0 r1 r2 t0 t1 n0 n1 n2 n3
    by (intro conjI) (simp_all add: demo_end_fields)
qed

lemma garbage_normalized:
  "normalizeEvents demo_parse [garbage_event] =
     [\<lparr>n_id = Some ''e7'', n_title = ''Review'', n_start = Some 1704844800000, n_end = None,
       n_resourceId = Some ''r1'', n_color = Some ''#1677ff'', raw = garbage_event\<rparr>]"
  by code_simp

lemma edge_normalized:
  "normalizeEvents demo_parse [edge_event] =
     [\<lparr>n_id = Some ''e7'', n_title = ''Review'', n_start = Some 8640000000000000, n_end = None,
       n_resourceId = Some ''r1'', n_color = Some ''#1677ff'', raw = edge_event\<rparr>]"
  by code_simp

text \<open>
  Counterexample to claim C1 as it is written, for every raw event. An end that the
  platform cannot parse is an Invalid Date: it counts as having a time of day, moving it
  leaves it invalid, and \<^verbatim>\<open>end.getTime() <= start.getTime()\<close> is false of NaN, so the canonical
  end is the Invalid Date and \<open>end > start\<close> is false. The same happens to an event without an
  end that starts on the last day of the range of dates.
\<close>

theorem normalize_canonical_counterexample:
  "e_end garbage_event = Some (DateStr ''garbage'') \<and>
   n_start (hd (normalizeEvents demo_parse [garbage_event])) = Some 1704844800000 \<and>
   n_end (hd (normalizeEvents demo_parse [garbage_event])) = None \<and>
   \<not> num_gt (getTime (n_end (hd (normalizeEvents demo_parse [garbage_event]))))
            (getTime (n_start (hd (normalizeEvents demo_parse [garbage_event])))) \<and>
   e_end edge_event = None \<and>
   n_start (hd (normalizeEvents demo_parse [edge_event])) = Some 8640000000000000 \<and>
   n_end (hd (normalizeEvents demo_parse [edge_event])) = None \<and>
   \<not> num_gt (getTime (n_end (hd (normalizeEvents demo_parse [edge_event]))))
            (getTime (n_start (hd (normalizeEvents demo_parse [edge_event]))))"
  unfolding garbage_normalized edge_normalized
  by (simp add: garbage_event_def edge_event_def jan_event_def num_gt_def getTime_def)

section \<open>Claims on the drag controller: a second pointer-down\<close>

lemma onEventPointerDown_starts:
  assumes "n_id nev = Some i" "i \<noteq> []"
  shows "onEventPointerDown resources (Some rect_top) drag e nev =
     Some \<lparr>pointerId = pe_pointerId e, eventId = i, origin = nev, startX = clientX e,
           startY = clientY e, deltaDays = 0,
           targetResourceIndex =
             clamp \<lfloor>(clientY e - rect_top) / rowHeight\<rfloor> 0 (max 0 (int (length resources) - 1))\<rparr>"
  using assms by (simp add: onEventPointerDown_def truthy_string_def)

text \<open>
  Claim C6 says that a pointer-down while a drag is active leaves the drag state as it is.
  \<^verbatim>\<open>onEventPointerDown\<close> does not read the drag state: with pointer 1 dragging event e7, a
  pointer-down of pointer 2 on event e1 replaces the state by a fresh one for pointer 2
  (lemma \<open>onEventPointerDown_starts\<close> gives the general form).
\<close>

theorem second_pointer_down_replaces_drag:
  "onEventPointerDown demo_resources (Some 0) None
     \<lparr>pe_pointerId = 1, clientX = 400, clientY = 20\<rparr> (hd (normalizeEvents demo_parse [jan_event]))
     = Some (jan_drag\<lparr>deltaDays := 0, targetResourceIndex := 0\<rparr>) \<and>
   onEventPointerDown demo_resources (Some 0) (Some (jan_drag\<lparr>deltaDays := 0, targetResourceIndex := 0\<rparr>))
     \<lparr>pe_pointerId = 2, clientX = 300, clientY = 100\<rparr> (hd (normalizeEvents demo_parse [demo_event]))
     = Some \<lparr>pointerId = 2, eventId = ''e1'', origin = hd (normalizeEvents demo_parse [demo_event]),
             startX = 300, startY = 100, deltaDays = 0, targetResourceIndex = 2\<rparr>"
proof -
  have j: "n_id (hd (normalizeEvents demo_parse [jan_event])) = Some ''e7''"
    by (simp add: jan_normalized)
  have d: "n_id (hd (normalizeEvents demo_parse [demo_event])) = Some ''e1''"
    by code_simp
  show ?thesis
    by (simp add: onEventPointerDown_starts [OF j] onEventPointerDown_starts [OF d]
        jan_drag_def clamp_def demo_resources_def rowHeight_def)
qed

end
